theory Spec2Isabelle
  imports Main "HOL-Library.Multiset"
begin

section \<open>Shell Music Player (MTSP 2.1.0): playback controller and catalog\<close>

text \<open>
  The source is one Python class, \<open>ShellMusicPlayer\<close>. Its attributes fall in two groups:
  the playback attributes (\<open>current_playlist\<close>, \<open>current_track_index\<close>,
  \<open>is_playing\<close>, \<open>is_paused\<close>, \<open>player_process\<close>), modelled by the record
  \<open>player\<close>, and the SQLite database behind \<open>self.conn\<close>, modelled by the record
  \<open>database\<close>. Everything the methods ask of the outside world (does \<open>Popen\<close>
  succeed, does \<open>terminate\<close> raise, which numbers does the random generator draw, what
  does \<open>mutagen.File\<close> return, what is in the directory tree) is a parameter of the model,
  so every theorem holds for every answer of the outside world.
\<close>

subsection \<open>Python values used by the class\<close>

text \<open>
  A row returned by \<open>get_tracks\<close> is the tuple
  \<open>(id, path, filename, artist, album)\<close>; \<open>play\<close> reads its components 1, 2 and 3,
  \<open>create_playlist\<close> its component 0.
\<close>

record track =
  t_id :: int
  t_path :: string
  t_filename :: string
  t_artist :: string
  t_album :: string

text \<open>
  The exceptions that can leave a method. \<open>BindingError\<close> is what \<open>sqlite3\<close> raises
  for a parameter of a type it cannot bind (\<open>InterfaceError\<close> or \<open>ProgrammingError\<close>,
  depending on the Python version). \<open>KeyboardInterrupt\<close> is the only one that is not
  an \<open>Exception\<close>: \<open>except Exception\<close> does not catch it.
\<close>

datatype pyerror =
    IndexError
  | IntegrityError
  | BindingError
  | OSError
  | KeyboardInterrupt
  | UnicodeEncodeError
  | OverflowError
  | OperationalError

text \<open>What a method does to the outside world, in order.\<close>

datatype signal = SIGSTOP | SIGCONT

datatype event =
    Print string
  | Popen "string list"
  | Terminate nat
  | Wait nat
  | SendSignal nat signal

text \<open>
  The answers of the outside world during one method call: whether
  \<open>terminate()\<close> and \<open>send_signal()\<close> raise an exception, what \<open>wait()\<close> does,
  what \<open>subprocess.Popen\<close> does (\<open>Inl msg\<close>: it raises with message \<open>msg\<close>;
  \<open>Inr h\<close>: it returns the process handle \<open>h\<close>), and the numbers drawn by
  \<open>random.shuffle\<close>.

  \<open>wait()\<close> is called without a timeout. It returns when the process has exited, it may
  raise an \<open>Exception\<close>, and it blocks for as long as the process does not exit. A
  process that \<open>pause\<close> has suspended with \<open>SIGSTOP\<close> does not act on the
  \<open>SIGTERM\<close> of \<open>terminate()\<close> before it is continued, so for it \<open>wait()\<close>
  blocks. A blocked \<open>wait()\<close> ends only when the user interrupts it, with
  \<open>KeyboardInterrupt\<close>; until then, and after it, the attributes are as they were
  when \<open>wait()\<close> was called.
\<close>

datatype wait_result = WaitReturns | WaitRaises | WaitBlocks

record world =
  terminate_raises :: bool
  wait_result :: wait_result
  signal_raises :: bool
  popen_result :: "string + nat"
  randbelow :: "nat \<Rightarrow> nat"

record player =
  current_playlist :: "track list"
  current_track_index :: int
  is_playing :: bool
  is_paused :: bool
  player_process :: "nat option"

text \<open>
  The result of a method call on the controller: the exception that left the method (if
  any), what the method did to the outside world, and the attributes afterwards. Python
  mutates the object in place, so the attributes written before an exception stay written.
\<close>

record outcome =
  raised :: "pyerror option"
  trace :: "event list"
  after :: player

definition init_player :: player where
  "init_player = \<lparr>current_playlist = [], current_track_index = 0,
     is_playing = False, is_paused = False, player_process = None\<rparr>"

text \<open>Python's \<open>xs[i]\<close>: a negative index counts from the end, out of range raises.\<close>

definition py_index :: "'a list \<Rightarrow> int \<Rightarrow> 'a option" where
  "py_index xs i =
     (let n = int (length xs) in
      if 0 \<le> i \<and> i < n then Some (xs ! nat i)
      else if - n \<le> i \<and> i < 0 then Some (xs ! nat (n + i))
      else None)"

subsection \<open>Playback controller\<close>

text \<open>
  \<open>stop\<close> (lines 163-175). \<open>terminate()\<close> and \<open>wait()\<close> are inside
  \<open>try ... except Exception: pass\<close>; when \<open>terminate()\<close> raises, \<open>wait()\<close> is not
  called. The three assignments and the message are inside \<open>if self.player_process\<close>,
  after the \<open>try\<close>: a \<open>wait()\<close> that blocks keeps the method from reaching them, and
  the \<open>KeyboardInterrupt\<close> that ends it passes the handler and leaves the method.
\<close>

definition stop :: "world \<Rightarrow> player \<Rightarrow> outcome" where
  "stop w p =
     (case player_process p of
        None \<Rightarrow> \<lparr>raised = None, trace = [], after = p\<rparr>
      | Some h \<Rightarrow>
          if \<not> terminate_raises w \<and> wait_result w = WaitBlocks
          then \<lparr>raised = Some KeyboardInterrupt, trace = [Terminate h, Wait h], after = p\<rparr>
          else
            \<lparr>raised = None,
             trace = (if terminate_raises w then [Terminate h] else [Terminate h, Wait h])
                     @ [Print ''Playback stopped.''],
             after = p\<lparr>player_process := None, is_playing := False, is_paused := False\<rparr>\<rparr>)"

text \<open>
  \<open>play\<close> (lines 121-147). \<open>if tracks:\<close> is Python truthiness: \<open>None\<close> and the empty
  list are both false. \<open>self.stop()\<close> is outside the \<open>try\<close>: when it is
  interrupted, the interrupt leaves \<open>play\<close> too, after the queue and the index have
  been written. The read \<open>self.current_playlist[self.current_track_index]\<close> is outside
  the \<open>try\<close> as well, so an \<open>IndexError\<close> there leaves the method, after
  \<open>stop()\<close> has run. \<open>Popen\<close> is inside the \<open>try\<close>: when it raises,
  \<open>player_process\<close> and \<open>is_playing\<close> keep the values \<open>stop()\<close> gave them.
\<close>

definition play :: "world \<Rightarrow> track list option \<Rightarrow> player \<Rightarrow> outcome" where
  "play w tracks p =
     (let p1 = (case tracks of
                  Some (t # ts) \<Rightarrow> p\<lparr>current_playlist := t # ts, current_track_index := 0\<rparr>
                | _ \<Rightarrow> p)
      in if current_playlist p1 = []
         then \<lparr>raised = None, trace = [Print ''No tracks to play.''], after = p1\<rparr>
         else
           let s = stop w p1; p2 = after s in
           if raised s \<noteq> None then s
           else
           (case py_index (current_playlist p2) (current_track_index p2) of
              None \<Rightarrow> \<lparr>raised = Some IndexError, trace = trace s, after = p2\<rparr>
            | Some current_track \<Rightarrow>
                let args = [''mpv'', t_path current_track, ''--no-video'', ''--terminal=no'']
                in (case popen_result w of
                      Inl msg \<Rightarrow>
                        \<lparr>raised = None,
                         trace = trace s @ [Popen args, Print (''Error playing track: '' @ msg)],
                         after = p2\<rparr>
                    | Inr h \<Rightarrow>
                        \<lparr>raised = None,
                         trace = trace s @ [Popen args,
                           Print (''Now playing: '' @ t_filename current_track @ '' - ''
                                  @ t_artist current_track)],
                         after = p2\<lparr>player_process := Some h, is_playing := True\<rparr>\<rparr>)))"

text \<open>
  \<open>pause\<close> (lines 149-154) and \<open>resume\<close> (lines 156-161). \<open>send_signal\<close> is not
  guarded: when it raises, the exception leaves the method before the flag is written.
\<close>

definition pause :: "world \<Rightarrow> player \<Rightarrow> outcome" where
  "pause w p =
     (case player_process p of
        None \<Rightarrow> \<lparr>raised = None, trace = [], after = p\<rparr>
      | Some h \<Rightarrow>
          if signal_raises w
          then \<lparr>raised = Some OSError, trace = [SendSignal h SIGSTOP], after = p\<rparr>
          else \<lparr>raised = None,
                trace = [SendSignal h SIGSTOP, Print ''Playback paused.''],
                after = p\<lparr>is_paused := True\<rparr>\<rparr>)"

definition resume :: "world \<Rightarrow> player \<Rightarrow> outcome" where
  "resume w p =
     (case player_process p of
        None \<Rightarrow> \<lparr>raised = None, trace = [], after = p\<rparr>
      | Some h \<Rightarrow>
          if is_paused p
          then (if signal_raises w
                then \<lparr>raised = Some OSError, trace = [SendSignal h SIGCONT], after = p\<rparr>
                else \<lparr>raised = None,
                      trace = [SendSignal h SIGCONT, Print ''Playback resumed.''],
                      after = p\<lparr>is_paused := False\<rparr>\<rparr>)
          else \<lparr>raised = None, trace = [], after = p\<rparr>)"

text \<open>
  \<open>next_track\<close> (lines 177-183) and \<open>previous_track\<close> (lines 185-191). The index is
  a Python \<open>int\<close> and \<open>%\<close> with a positive divisor is never negative, as \<open>mod\<close> on
  \<open>int\<close>. Both end with \<open>self.play()\<close>, that is \<open>play\<close> without a track list.
\<close>

definition next_track :: "world \<Rightarrow> player \<Rightarrow> outcome" where
  "next_track w p =
     (if current_playlist p = [] then \<lparr>raised = None, trace = [], after = p\<rparr>
      else play w None
             (p\<lparr>current_track_index :=
                  (current_track_index p + 1) mod int (length (current_playlist p))\<rparr>))"

definition previous_track :: "world \<Rightarrow> player \<Rightarrow> outcome" where
  "previous_track w p =
     (if current_playlist p = [] then \<lparr>raised = None, trace = [], after = p\<rparr>
      else play w None
             (p\<lparr>current_track_index :=
                  (current_track_index p - 1) mod int (length (current_playlist p))\<rparr>))"

text \<open>
  \<open>random.shuffle(x)\<close> is the standard library's in-place Fisher-Yates loop:
  \<open>for i in reversed(range(1, len(x))): j = randbelow(i + 1); x[i], x[j] = x[j], x[i]\<close>.
  The draw for position \<open>i\<close> is \<open>randbelow w i\<close>, reduced into the range
  \<open>0 .. i\<close> the generator promises.
\<close>

definition swap_at :: "nat \<Rightarrow> nat \<Rightarrow> 'a list \<Rightarrow> 'a list" where
  "swap_at i j xs = xs[i := xs ! j, j := xs ! i]"

definition random_shuffle :: "(nat \<Rightarrow> nat) \<Rightarrow> 'a list \<Rightarrow> 'a list" where
  "random_shuffle rb xs =
     fold (\<lambda>i ys. swap_at i (rb i mod (i + 1)) ys) (rev [1..<length xs]) xs"

text \<open>\<open>shuffle_playlist\<close> (lines 193-197).\<close>

definition shuffle_playlist :: "world \<Rightarrow> player \<Rightarrow> outcome" where
  "shuffle_playlist w p =
     (if current_playlist p = [] then \<lparr>raised = None, trace = [], after = p\<rparr>
      else \<lparr>raised = None, trace = [Print ''Playlist shuffled.''],
            after = p\<lparr>current_playlist := random_shuffle (randbelow w) (current_playlist p)\<rparr>\<rparr>)"

text \<open>
  The commands of the interactive shell that reach the controller, each with the answers
  of the outside world during the call, and the states reachable from a fresh controller.
\<close>

datatype command =
    Play "track list option"
  | Pause
  | Resume
  | Stop
  | Next
  | Previous
  | Shuffle

fun exec :: "world \<times> command \<Rightarrow> player \<Rightarrow> outcome" where
  "exec (w, Play tracks) p = play w tracks p"
| "exec (w, Pause) p = pause w p"
| "exec (w, Resume) p = resume w p"
| "exec (w, Stop) p = stop w p"
| "exec (w, Next) p = next_track w p"
| "exec (w, Previous) p = previous_track w p"
| "exec (w, Shuffle) p = shuffle_playlist w p"

fun run :: "(world \<times> command) list \<Rightarrow> player \<Rightarrow> player" where
  "run [] p = p"
| "run (c # cs) p = run cs (after (exec c p))"

text \<open>\<open>stop\<close> reaches a \<open>wait()\<close> that blocks.\<close>

definition wait_blocks :: "world \<Rightarrow> bool" where
  "wait_blocks w \<longleftrightarrow> \<not> terminate_raises w \<and> wait_result w = WaitBlocks"

text \<open>
  What holds of the attributes between any two commands: a controller without a process
  has both flags cleared, one with a process is playing, and the index points into a
  non-empty queue.
\<close>

definition consistent :: "player \<Rightarrow> bool" where
  "consistent p \<longleftrightarrow>
     (player_process p = None \<longrightarrow> \<not> is_playing p \<and> \<not> is_paused p) \<and>
     (player_process p \<noteq> None \<longrightarrow> is_playing p) \<and>
     (current_playlist p \<noteq> [] \<longrightarrow>
        0 \<le> current_track_index p \<and>
        current_track_index p < int (length (current_playlist p)))"

subsection \<open>The catalog: the SQLite database behind \<open>self.conn\<close>\<close>

text \<open>
  \<open>_create_database\<close> (lines 39-67) declares three tables. A table is the list of its
  rows in insertion order. \<open>path TEXT UNIQUE\<close> and \<open>name TEXT UNIQUE\<close> make an
  \<open>INSERT\<close> of a value already present fail with \<open>sqlite3.IntegrityError\<close>. The
  \<open>FOREIGN KEY\<close> clauses of \<open>playlist_tracks\<close> are declared, but SQLite enforces
  foreign keys only on a connection that ran \<open>PRAGMA foreign_keys = ON\<close>, and the source
  never does: the model checks none. The only value \<open>scan_music_library\<close> can store in
  the column \<open>duration REAL\<close> is the number 0 (see \<open>insert_track\<close>), kept here as an
  integer. \<open>commit()\<close> changes nothing the connection itself can see and is not
  modelled. Faults of the storage itself (an I/O error, a file locked by another process)
  are not modelled either.
\<close>

record track_row =
  r_id :: int
  r_path :: string
  r_filename :: string
  r_artist :: string
  r_album :: string
  r_duration :: int

record playlist_row =
  pl_id :: int
  pl_name :: string

record database =
  tracks :: "track_row list"
  playlists :: "playlist_row list"
  playlist_tracks :: "(int \<times> int) list"

definition empty_database :: database where
  "empty_database = \<lparr>tracks = [], playlists = [], playlist_tracks = []\<rparr>"

text \<open>
  \<open>id INTEGER PRIMARY KEY\<close> is SQLite's rowid, a signed 64-bit integer. A new row gets
  1 in an empty table and otherwise one more than the largest id of the table. When the
  largest id is the greatest 64-bit integer, SQLite tries ids at random: the outside
  world's \<open>pick\<close> stands for the id it finds (unused and positive), or for its giving
  up, which ends the \<open>INSERT\<close> with SQLITE_FULL (\<open>sqlite3.OperationalError\<close>).
\<close>

definition max_rowid :: int where
  "max_rowid = 9223372036854775807"

definition next_rowid :: "(int list \<Rightarrow> int option) \<Rightarrow> int list \<Rightarrow> int option" where
  "next_rowid pick ids =
     (if ids = [] then Some 1
      else if Max (set ids) < max_rowid then Some (Max (set ids) + 1)
      else (case pick ids of
              None \<Rightarrow> None
            | Some i \<Rightarrow> if 0 < i \<and> i \<le> max_rowid \<and> i \<notin> set ids then Some i else None))"

text \<open>
  What \<open>execute\<close> can bind. An \<open>int\<close> must fit SQLite's 64-bit integer, else
  \<open>OverflowError\<close>. A \<open>str\<close> is encoded as UTF-8, else \<open>UnicodeEncodeError\<close>.
  Strings are byte strings here, as file names are on disk: \<open>os.walk\<close> decodes a name
  with the file system encoding (UTF-8) and the \<open>surrogateescape\<close> handler, so exactly
  the names that are not well-formed UTF-8 become a \<open>str\<close> with lone surrogates, which
  cannot be encoded. \<open>valid_utf8\<close> is well-formedness as the Unicode standard defines
  it (no overlong forms, no surrogates, nothing above U+10FFFF), read byte by byte.
\<close>

definition sqlite_int :: "int \<Rightarrow> bool" where
  "sqlite_int i \<longleftrightarrow> - 9223372036854775808 \<le> i \<and> i \<le> 9223372036854775807"

datatype utf8_state =
    U_Start
  | U_Tail1
  | U_Tail2
  | U_Tail3
  | U_E0
  | U_ED
  | U_F0
  | U_F4
  | U_Error

fun utf8_step :: "utf8_state \<Rightarrow> nat \<Rightarrow> utf8_state" where
  "utf8_step U_Start b =
     (if b < 128 then U_Start
      else if 194 \<le> b \<and> b \<le> 223 then U_Tail1
      else if b = 224 then U_E0
      else if b = 237 then U_ED
      else if 225 \<le> b \<and> b \<le> 239 then U_Tail2
      else if b = 240 then U_F0
      else if 241 \<le> b \<and> b \<le> 243 then U_Tail3
      else if b = 244 then U_F4
      else U_Error)"
| "utf8_step U_Tail1 b = (if 128 \<le> b \<and> b \<le> 191 then U_Start else U_Error)"
| "utf8_step U_Tail2 b = (if 128 \<le> b \<and> b \<le> 191 then U_Tail1 else U_Error)"
| "utf8_step U_Tail3 b = (if 128 \<le> b \<and> b \<le> 191 then U_Tail2 else U_Error)"
| "utf8_step U_E0 b = (if 160 \<le> b \<and> b \<le> 191 then U_Tail1 else U_Error)"
| "utf8_step U_ED b = (if 128 \<le> b \<and> b \<le> 159 then U_Tail1 else U_Error)"
| "utf8_step U_F0 b = (if 144 \<le> b \<and> b \<le> 191 then U_Tail2 else U_Error)"
| "utf8_step U_F4 b = (if 128 \<le> b \<and> b \<le> 143 then U_Tail2 else U_Error)"
| "utf8_step U_Error b = U_Error"

definition utf8_run :: "utf8_state \<Rightarrow> string \<Rightarrow> utf8_state" where
  "utf8_run st s = fold (\<lambda>c st. utf8_step st (of_char c)) s st"

definition valid_utf8 :: "string \<Rightarrow> bool" where
  "valid_utf8 s \<longleftrightarrow> utf8_run U_Start s = U_Start"

text \<open>
  The \<open>INSERT\<close> of line 96 binds, in this order, the path, the file name, the artist,
  the album and the duration. The duration is \<open>metadata.get('length', 0)\<close>: the number
  0 when the tag is missing, the tag's value otherwise, which in mutagen's easy interface
  is a list of strings. The \<open>sqlite3\<close> module binds \<open>None\<close>, numbers, strings and
  bytes; a list makes \<open>execute\<close> raise before the statement runs. The statement then
  takes the new rowid and checks \<open>path UNIQUE\<close>.
\<close>

datatype pyvalue = PyInt int | PyStrList "string list"

definition insert_track ::
  "(int list \<Rightarrow> int option) \<Rightarrow> string \<Rightarrow> string \<Rightarrow> string \<Rightarrow> string \<Rightarrow> pyvalue \<Rightarrow> database
     \<Rightarrow> pyerror + database" where
  "insert_track pick full_path file artist album duration db =
     (if \<not> (valid_utf8 full_path \<and> valid_utf8 file \<and> valid_utf8 artist \<and> valid_utf8 album)
      then Inl UnicodeEncodeError
      else
        (case duration of
           PyStrList _ \<Rightarrow> Inl BindingError
         | PyInt d \<Rightarrow>
             if \<not> sqlite_int d then Inl OverflowError
             else
               (case next_rowid pick (map r_id (tracks db)) of
                  None \<Rightarrow> Inl OperationalError
                | Some i \<Rightarrow>
                    if full_path \<in> set (map r_path (tracks db)) then Inl IntegrityError
                    else Inr (db\<lparr>tracks := tracks db @
                           [\<lparr>r_id = i, r_path = full_path, r_filename = file,
                             r_artist = artist, r_album = album, r_duration = d\<rparr>]\<rparr>))))"

subsection \<open>Scanning the music directory\<close>

text \<open>
  \<open>file.lower().endswith(supported_formats)\<close> (line 76). Strings are byte strings
  here; \<open>lower\<close> maps the ASCII capitals, which is all that can turn a name's ending
  into one of the five ASCII suffixes.
\<close>

definition supported_formats :: "string list" where
  "supported_formats = [''.mp3'', ''.wav'', ''.flac'', ''.ogg'', ''.m4a'']"

definition lower_char :: "char \<Rightarrow> char" where
  "lower_char c =
     (case map_of (zip ''ABCDEFGHIJKLMNOPQRSTUVWXYZ'' ''abcdefghijklmnopqrstuvwxyz'') c of
        Some l \<Rightarrow> l
      | None \<Rightarrow> c)"

definition lower :: "string \<Rightarrow> string" where
  "lower s = map lower_char s"

definition endswith :: "string \<Rightarrow> string \<Rightarrow> bool" where
  "endswith s suf \<longleftrightarrow>
     length suf \<le> length s \<and> drop (length s - length suf) s = suf"

definition supported :: "string \<Rightarrow> bool" where
  "supported file = list_ex (endswith (lower file)) supported_formats"

text \<open>\<open>os.path.join(root, file)\<close> on POSIX.\<close>

definition path_join :: "string \<Rightarrow> string \<Rightarrow> string" where
  "path_join a b =
     (if take 1 b = ''/'' then b
      else if a = [] \<or> endswith a ''/'' then a @ b
      else a @ ''/'' @ b)"

text \<open>
  The directory tree under \<open>music_dir\<close>. A directory whose listing fails (unreadable,
  or gone) has no contents: \<open>None\<close>. \<open>os.walk\<close> is called without \<open>onerror\<close>, so
  it yields nothing for such a directory and goes on with the next one; for a readable
  directory \<open>d\<close> it yields \<open>(d, dirnames, filenames)\<close> and then walks the subdirectories in
  order.
\<close>

datatype fs_entry = File string | Dir string "fs_entry list option"

fun entry_is_dir :: "fs_entry \<Rightarrow> bool" where
  "entry_is_dir (Dir _ _) = True"
| "entry_is_dir (File _) = False"

fun entry_name :: "fs_entry \<Rightarrow> string" where
  "entry_name (Dir n _) = n"
| "entry_name (File n) = n"

fun os_walk :: "string \<Rightarrow> fs_entry list option \<Rightarrow> (string \<times> string list \<times> string list) list"
  and walk_entries :: "string \<Rightarrow> fs_entry list \<Rightarrow> (string \<times> string list \<times> string list) list"
  and walk_entry :: "string \<Rightarrow> fs_entry \<Rightarrow> (string \<times> string list \<times> string list) list"
where
  "os_walk d None = []"
| "os_walk d (Some es) =
     (d, map entry_name (filter entry_is_dir es),
           map entry_name (filter (\<lambda>e. \<not> entry_is_dir e) es)) # walk_entries d es"
| "walk_entries d [] = []"
| "walk_entries d (e # es) = walk_entry d e @ walk_entries d es"
| "walk_entry d (File _) = []"
| "walk_entry d (Dir n sub) = os_walk (path_join d n) sub"

text \<open>
  What \<open>mutagen.File(full_path, easy=True)\<close> does: it raises (the file cannot be
  opened or read), it returns \<open>None\<close> (no known format), or it returns a tag dictionary
  whose values are lists of strings.
\<close>

datatype mutagen_file =
    MutagenRaises
  | MutagenNone
  | MutagenTags "string \<rightharpoonup> string list"

text \<open>
  Lines 85-93: the \<open>try\<close> block and its \<open>except Exception\<close>, written inline in
  the scan. \<open>metadata.get\<close> on \<open>None\<close> raises \<open>AttributeError\<close>, \<open>[0]\<close> on an
  empty list raises \<open>IndexError\<close>; whichever statement raises, the handler assigns all
  three defaults. \<open>first_of (metadata key) dflt\<close> is \<open>metadata.get(key, [dflt])[0]\<close>,
  with \<open>None\<close> for the \<open>IndexError\<close>.
\<close>

definition default_metadata :: "string \<times> string \<times> pyvalue" where
  "default_metadata = (''Unknown Artist'', ''Unknown Album'', PyInt 0)"

fun first_of :: "string list option \<Rightarrow> string \<Rightarrow> string option" where
  "first_of None dflt = Some dflt"
| "first_of (Some []) dflt = None"
| "first_of (Some (x # xs)) dflt = Some x"

fun extract_metadata :: "mutagen_file \<Rightarrow> string \<times> string \<times> pyvalue" where
  "extract_metadata MutagenRaises = default_metadata"
| "extract_metadata MutagenNone = default_metadata"
| "extract_metadata (MutagenTags metadata) =
     (case first_of (metadata ''artist'') ''Unknown Artist'' of
        None \<Rightarrow> default_metadata
      | Some artist \<Rightarrow>
          (case first_of (metadata ''album'') ''Unknown Album'' of
             None \<Rightarrow> default_metadata
           | Some album \<Rightarrow>
               (artist, album,
                case metadata ''length'' of None \<Rightarrow> PyInt 0 | Some v \<Rightarrow> PyStrList v)))"

text \<open>What the libraries answer during a scan.\<close>

record outside =
  mutagen_File :: "string \<Rightarrow> mutagen_file"
  random_rowid :: "int list \<Rightarrow> int option"

text \<open>
  The body of the inner loop (lines 76-100) on the pair (database, \<open>tracks_added\<close>).
  The first component of the result is the exception that leaves the scan, if any; the
  rows inserted before it stay visible to the connection. The \<open>SELECT\<close> of line 80
  binds the path and is outside the \<open>try\<close>: a path that cannot be encoded raises there,
  before mutagen is asked.
\<close>

definition scan_file ::
  "outside \<Rightarrow> string \<Rightarrow> string \<Rightarrow> database \<times> nat \<Rightarrow> pyerror option \<times> database \<times> nat" where
  "scan_file env root file st =
     (case st of (db, tracks_added) \<Rightarrow>
        if supported file then
          let full_path = path_join root file in
          if \<not> valid_utf8 full_path then (Some UnicodeEncodeError, db, tracks_added)
          else if full_path \<in> set (map r_path (tracks db)) then (None, db, tracks_added)
          else
            (case extract_metadata (mutagen_File env full_path) of
               (artist, album, duration) \<Rightarrow>
                 (case insert_track (random_rowid env) full_path file artist album duration db of
                    Inl e \<Rightarrow> (Some e, db, tracks_added)
                  | Inr db' \<Rightarrow> (None, db', tracks_added + 1)))
        else (None, db, tracks_added))"

fun scan_files ::
  "outside \<Rightarrow> string \<Rightarrow> string list \<Rightarrow> database \<times> nat \<Rightarrow> pyerror option \<times> database \<times> nat" where
  "scan_files env root [] st = (None, st)"
| "scan_files env root (file # files) st =
     (case scan_file env root file st of
        (Some e, st') \<Rightarrow> (Some e, st')
      | (None, st') \<Rightarrow> scan_files env root files st')"

fun scan_walk ::
  "outside \<Rightarrow> (string \<times> string list \<times> string list) list \<Rightarrow> database \<times> nat
     \<Rightarrow> pyerror option \<times> database \<times> nat" where
  "scan_walk env [] st = (None, st)"
| "scan_walk env ((root, dirs, files) # rest) st =
     (case scan_files env root files st of
        (Some e, st') \<Rightarrow> (Some e, st')
      | (None, st') \<Rightarrow> scan_walk env rest st')"

text \<open>
  \<open>scan_music_library\<close> (lines 69-103): \<open>Inr n\<close> is \<open>return tracks_added\<close>,
  \<open>Inl e\<close> an exception leaving the method; the second component is the database
  afterwards.
\<close>

definition scan_music_library ::
  "outside \<Rightarrow> string \<Rightarrow> fs_entry list option \<Rightarrow> database \<Rightarrow> (pyerror + nat) \<times> database" where
  "scan_music_library env music_dir fs db =
     (case scan_walk env (os_walk music_dir fs) (db, 0) of
        (Some e, db', tracks_added) \<Rightarrow> (Inl e, db')
      | (None, db', tracks_added) \<Rightarrow> (Inr tracks_added, db'))"



subsection \<open>Playlists\<close>

text \<open>
  \<open>create_playlist\<close> (lines 199-211). The first \<open>execute\<close> binds the name, takes the
  new rowid and checks \<open>name UNIQUE\<close>; when it raises, nothing has been written. The
  loop then inserts one association row per given track, with the track's component 0,
  bound as an integer; when that raises, the playlist row and the association rows
  inserted so far stay. \<open>Inl (e, db)\<close> is the exception \<open>e\<close> leaving the method with the
  database \<open>db\<close>; \<open>Inr\<close> is the normal return, after which the source prints its
  "created" message.
\<close>

fun add_playlist_tracks :: "int \<Rightarrow> track list \<Rightarrow> database \<Rightarrow> pyerror \<times> database + database" where
  "add_playlist_tracks playlist_id [] db = Inr db"
| "add_playlist_tracks playlist_id (track # trs) db =
     (if \<not> sqlite_int (t_id track) then Inl (OverflowError, db)
      else add_playlist_tracks playlist_id trs
             (db\<lparr>playlist_tracks := playlist_tracks db @ [(playlist_id, t_id track)]\<rparr>))"

definition create_playlist ::
  "(int list \<Rightarrow> int option) \<Rightarrow> string \<Rightarrow> track list \<Rightarrow> database
     \<Rightarrow> pyerror \<times> database + database" where
  "create_playlist pick name trs db =
     (if \<not> valid_utf8 name then Inl (UnicodeEncodeError, db)
      else
        (case next_rowid pick (map pl_id (playlists db)) of
           None \<Rightarrow> Inl (OperationalError, db)
         | Some playlist_id \<Rightarrow>
             if name \<in> set (map pl_name (playlists db)) then Inl (IntegrityError, db)
             else add_playlist_tracks playlist_id trs
                    (db\<lparr>playlists := playlists db @
                          [\<lparr>pl_id = playlist_id, pl_name = name\<rparr>]\<rparr>)))"

definition list_playlists :: "database \<Rightarrow> (int \<times> string) list" where
  "list_playlists db = map (\<lambda>r. (pl_id r, pl_name r)) (playlists db)"

subsection \<open>Catalogs built by the class\<close>

text \<open>
  The two methods that write to the database, and the databases they can build from the
  empty one that \<open>_create_database\<close> leaves on first start. A method that raises leaves
  the database as it is at that moment.
\<close>

datatype db_command =
    Scan outside string "fs_entry list option"
  | CreatePlaylist "int list \<Rightarrow> int option" string "track list"

fun db_exec :: "db_command \<Rightarrow> database \<Rightarrow> database" where
  "db_exec (Scan env music_dir fs) db = snd (scan_music_library env music_dir fs db)"
| "db_exec (CreatePlaylist pick name trs) db =
     (case create_playlist pick name trs db of Inl (e, db') \<Rightarrow> db' | Inr db' \<Rightarrow> db')"

fun db_run :: "db_command list \<Rightarrow> database \<Rightarrow> database" where
  "db_run [] db = db"
| "db_run (c # cs) db = db_run cs (db_exec c db)"

subsection \<open>Sample data\<close>

text \<open>
  Three catalogued tracks and one that is in no catalog; an outside world in which every
  call succeeds, one in which every call fails and one in which the player does not exit;
  a music directory with three audio files that have tags and one audio file that cannot
  be read, and the catalog a scan of it builds; a directory with a subdirectory that
  cannot be listed; a file with a \<open>length\<close> tag; a file whose name is not UTF-8.
\<close>

definition track_a :: track where
  "track_a = \<lparr>t_id = 1, t_path = ''/music/a.mp3'', t_filename = ''a.mp3'',
     t_artist = ''Ann'', t_album = ''First''\<rparr>"

definition track_b :: track where
  "track_b = \<lparr>t_id = 2, t_path = ''/music/b.FLAC'', t_filename = ''b.FLAC'',
     t_artist = ''Unknown Artist'', t_album = ''Second''\<rparr>"

definition track_c :: track where
  "track_c = \<lparr>t_id = 3, t_path = ''/music/c.ogg'', t_filename = ''c.ogg'',
     t_artist = ''Cy'', t_album = ''Unknown Album''\<rparr>"

definition calm_world :: world where
  "calm_world = \<lparr>terminate_raises = False, wait_result = WaitReturns,
     signal_raises = False, popen_result = Inr 7, randbelow = (\<lambda>i. 0)\<rparr>"

definition hostile_world :: world where
  "hostile_world = \<lparr>terminate_raises = True, wait_result = WaitRaises,
     signal_raises = True, popen_result = Inl ''mpv not found'', randbelow = (\<lambda>i. i)\<rparr>"

definition stalled_world :: world where
  "stalled_world = \<lparr>terminate_raises = False, wait_result = WaitBlocks,
     signal_raises = False, popen_result = Inr 8, randbelow = (\<lambda>i. 0)\<rparr>"

definition scenario_tree :: "fs_entry list option" where
  "scenario_tree = Some [File ''a.mp3'', File ''b.FLAC'', File ''c.ogg'', File ''d.mp3'']"

definition nested_tree :: "fs_entry list option" where
  "nested_tree = Some [Dir ''rock'' (Some [File ''e.wav'']), Dir ''locked'' None,
     File ''a.mp3'', File ''notes.txt'']"

definition sample_mutagen :: "string \<Rightarrow> mutagen_file" where
  "sample_mutagen full_path =
     (if full_path = ''/music/a.mp3''
        then MutagenTags [''artist'' \<mapsto> [''Ann''], ''album'' \<mapsto> [''First'']]
      else if full_path = ''/music/b.FLAC''
        then MutagenTags [''album'' \<mapsto> [''Second'']]
      else if full_path = ''/music/c.ogg''
        then MutagenTags [''artist'' \<mapsto> [''Cy'', ''Di'']]
      else MutagenRaises)"

definition sample_env :: outside where
  "sample_env = \<lparr>mutagen_File = sample_mutagen, random_rowid = (\<lambda>ids. None)\<rparr>"

definition length_tag_mutagen :: "string \<Rightarrow> mutagen_file" where
  "length_tag_mutagen full_path =
     (if full_path = ''/music/a.mp3''
        then MutagenTags [''artist'' \<mapsto> [''Ann''], ''album'' \<mapsto> [''First'']]
      else if full_path = ''/music/b.FLAC''
        then MutagenTags [''album'' \<mapsto> [''Second''], ''length'' \<mapsto> [''215'']]
      else MutagenRaises)"

definition length_tag_env :: outside where
  "length_tag_env = \<lparr>mutagen_File = length_tag_mutagen, random_rowid = (\<lambda>ids. None)\<rparr>"

definition first_row_catalog :: database where
  "first_row_catalog =
     \<lparr>tracks =
        [\<lparr>r_id = 1, r_path = ''/music/a.mp3'', r_filename = ''a.mp3'', r_artist = ''Ann'',
          r_album = ''First'', r_duration = 0\<rparr>],
      playlists = [], playlist_tracks = []\<rparr>"

definition bad_name :: string where
  "bad_name = CHR 0xFF # ''.mp3''"

definition bad_name_tree :: "fs_entry list option" where
  "bad_name_tree = Some [File bad_name]"

definition sample_catalog :: database where
  "sample_catalog =
     \<lparr>tracks =
        [\<lparr>r_id = 1, r_path = ''/music/a.mp3'', r_filename = ''a.mp3'', r_artist = ''Ann'',
          r_album = ''First'', r_duration = 0\<rparr>,
         \<lparr>r_id = 2, r_path = ''/music/b.FLAC'', r_filename = ''b.FLAC'',
          r_artist = ''Unknown Artist'', r_album = ''Second'', r_duration = 0\<rparr>,
         \<lparr>r_id = 3, r_path = ''/music/c.ogg'', r_filename = ''c.ogg'', r_artist = ''Cy'',
          r_album = ''Unknown Album'', r_duration = 0\<rparr>,
         \<lparr>r_id = 4, r_path = ''/music/d.mp3'', r_filename = ''d.mp3'',
          r_artist = ''Unknown Artist'', r_album = ''Unknown Album'', r_duration = 0\<rparr>],
      playlists = [], playlist_tracks = []\<rparr>"

definition ghost_track :: track where
  "ghost_track = \<lparr>t_id = 99, t_path = ''/gone/x.mp3'', t_filename = ''x.mp3'',
     t_artist = ''Nobody'', t_album = ''Nothing''\<rparr>"

subsection \<open>Notions used by the statements\<close>

text \<open>The full paths of the files a scan looks at: those with a supported ending.\<close>

fun audio_paths :: "(string \<times> string list \<times> string list) list \<Rightarrow> string list" where
  "audio_paths [] = []"
| "audio_paths ((root, dirs, files) # rest) =
     map (path_join root) (filter supported files) @ audio_paths rest"


text \<open>
  A file whose metadata cannot be read or parsed: the ways in which the \<open>try\<close> block
  of lines 85-93 raises. Besides an unreadable file, a tag \<open>artist\<close> or \<open>album\<close>
  that is present with an empty list of values makes \<open>[0]\<close> raise.
\<close>

fun extraction_fails :: "mutagen_file \<Rightarrow> bool" where
  "extraction_fails MutagenRaises = True"
| "extraction_fails MutagenNone = True"
| "extraction_fails (MutagenTags metadata) =
     (metadata ''artist'' = Some [] \<or> metadata ''album'' = Some [])"

definition paths :: "database \<Rightarrow> string list" where
  "paths db = map r_path (tracks db)"

text \<open>The row a scan inserts for a file whose metadata cannot be read.\<close>

definition default_row :: "int \<Rightarrow> string \<Rightarrow> string \<Rightarrow> track_row" where
  "default_row i full_path file =
     \<lparr>r_id = i, r_path = full_path, r_filename = file, r_artist = ''Unknown Artist'',
      r_album = ''Unknown Album'', r_duration = 0\<rparr>"

section \<open>Properties of the playback controller\<close>

subsection \<open>Shuffling permutes\<close>

lemma length_swap_at: "length (swap_at i j xs) = length xs"
  by (simp add: swap_at_def)

lemma mset_swap_at:
  "i < length xs \<Longrightarrow> j < length xs \<Longrightarrow> mset (swap_at i j xs) = mset xs"
  unfolding swap_at_def by (simp add: mset_swap)

lemma fold_swaps_perm:
  "\<forall>i \<in> set is. i < length xs \<Longrightarrow>
   length (fold (\<lambda>i ys. swap_at i (rb i mod (i + 1)) ys) is xs) = length xs \<and>
   mset (fold (\<lambda>i ys. swap_at i (rb i mod (i + 1)) ys) is xs) = mset xs"
proof (induction "is" arbitrary: xs)
  case Nil
  then show ?case by simp
next
  case (Cons i "is")
  have i: "i < length xs" using Cons.prems by simp
  have "rb i mod (i + 1) < i + 1"
    by (rule mod_less_divisor) simp
  then have j: "rb i mod (i + 1) < length xs"
    using i by linarith
  let ?ys = "swap_at i (rb i mod (i + 1)) xs"
  have "\<forall>k \<in> set is. k < length ?ys"
    using Cons.prems by (simp add: length_swap_at)
  from Cons.IH [OF this] show ?case
    using mset_swap_at [OF i j] by (simp add: length_swap_at)
qed

lemma length_random_shuffle: "length (random_shuffle rb xs) = length xs"
  unfolding random_shuffle_def by (rule fold_swaps_perm [THEN conjunct1]) simp

lemma mset_random_shuffle: "mset (random_shuffle rb xs) = mset xs"
  unfolding random_shuffle_def by (rule fold_swaps_perm [THEN conjunct2]) simp

subsection \<open>What each method leaves behind\<close>

lemma stop_raised:
  "raised (stop w p) = (if player_process p \<noteq> None \<and> wait_blocks w
                        then Some KeyboardInterrupt else None)"
  by (simp add: stop_def wait_blocks_def split: option.splits)

lemma stop_after:
  "after (stop w p) =
     (if player_process p = None \<or> wait_blocks w then p
      else p\<lparr>player_process := None, is_playing := False, is_paused := False\<rparr>)"
  by (simp add: stop_def wait_blocks_def split: option.splits)

lemma stop_frame:
  "current_playlist (after (stop w p)) = current_playlist p"
  "current_track_index (after (stop w p)) = current_track_index p"
  by (simp_all add: stop_after)

lemma play_None_frame:
  "current_playlist (after (play w None p)) = current_playlist p"
  "current_track_index (after (play w None p)) = current_track_index p"
  by (simp_all add: play_def Let_def stop_frame split: option.splits sum.splits)

lemma play_interrupted:
  "current_playlist p \<noteq> [] \<Longrightarrow> player_process p \<noteq> None \<Longrightarrow> wait_blocks w \<Longrightarrow>
   play w None p = stop w p"
  by (simp add: play_def Let_def stop_raised)

lemma py_index_in_range:
  "0 \<le> i \<Longrightarrow> i < int (length xs) \<Longrightarrow> py_index xs i = Some (xs ! nat i)"
  by (simp add: py_index_def)

subsection \<open>The attributes stay consistent\<close>

lemma consistent_init: "consistent init_player"
  by (simp add: consistent_def init_player_def)

lemma consistent_stop: "consistent p \<Longrightarrow> consistent (after (stop w p))"
  by (auto simp: consistent_def stop_after)

lemma consistent_play: "consistent p \<Longrightarrow> consistent (after (play w ts p))"
  by (auto simp: consistent_def play_def Let_def stop_after
           split: option.splits sum.splits list.splits)

lemma consistent_pause: "consistent p \<Longrightarrow> consistent (after (pause w p))"
  by (auto simp: consistent_def pause_def split: option.splits)

lemma consistent_resume: "consistent p \<Longrightarrow> consistent (after (resume w p))"
  by (auto simp: consistent_def resume_def split: option.splits)

lemma consistent_move:
  "consistent p \<Longrightarrow> current_playlist p \<noteq> [] \<Longrightarrow>
   consistent (p\<lparr>current_track_index := k mod int (length (current_playlist p))\<rparr>)"
  by (simp add: consistent_def)

lemma consistent_next: "consistent p \<Longrightarrow> consistent (after (next_track w p))"
  by (simp add: next_track_def consistent_play consistent_move)

lemma consistent_previous: "consistent p \<Longrightarrow> consistent (after (previous_track w p))"
  by (simp add: previous_track_def consistent_play consistent_move)

lemma consistent_shuffle: "consistent p \<Longrightarrow> consistent (after (shuffle_playlist w p))"
  by (auto simp: consistent_def shuffle_playlist_def length_random_shuffle)

lemma consistent_exec: "consistent p \<Longrightarrow> consistent (after (exec c p))"
  by (cases "(c, p)" rule: exec.cases)
     (simp_all add: consistent_stop consistent_play consistent_pause consistent_resume
        consistent_next consistent_previous consistent_shuffle)

lemma consistent_run: "consistent p \<Longrightarrow> consistent (run cs p)"
  by (induction cs arbitrary: p) (simp_all add: consistent_exec)

lemma consistent_reachable: "consistent (run cs init_player)"
  by (rule consistent_run [OF consistent_init])

text \<open>
  C3. In every state reached from the initial controller by any sequence of play, pause,
  resume, stop, next, previous and shuffle, whatever the outside world answers:
  \<open>is_paused\<close> implies \<open>is_playing\<close>.
\<close>

theorem paused_implies_playing:
  "is_paused (run cs init_player) \<longrightarrow> is_playing (run cs init_player)"
  using consistent_reachable [of cs] by (auto simp: consistent_def)

theorem paused_implies_playing_witness:
  "is_paused (run [(calm_world, Play (Some [track_a])), (calm_world, Pause)] init_player) \<and>
   is_playing (run [(calm_world, Play (Some [track_a])), (calm_world, Pause)] init_player)"
proof -
  have "is_paused (run [(calm_world, Play (Some [track_a])), (calm_world, Pause)] init_player)"
    by (simp add: play_def pause_def stop_def init_player_def calm_world_def py_index_def)
  then show ?thesis
    using paused_implies_playing
      [of "[(calm_world, Play (Some [track_a])), (calm_world, Pause)]"]
    by simp
qed

subsection \<open>Stopping\<close>

lemma stop_idle_noop:
  "player_process p = None \<Longrightarrow> stop w p = \<lparr>raised = None, trace = [], after = p\<rparr>"
  by (simp add: stop_def)

lemma stop_clears_flags:
  "consistent p \<Longrightarrow> \<not> wait_blocks w \<Longrightarrow>
   \<not> is_playing (after (stop w p)) \<and> \<not> is_paused (after (stop w p))"
  by (auto simp: consistent_def stop_after)

text \<open>
  What \<open>stop\<close> guarantees when its \<open>wait()\<close> does not block, whether or not
  \<open>terminate()\<close> or \<open>wait()\<close> raised: it does not raise and ends without a process;
  on every reachable state it also ends with both flags cleared. A second \<open>stop\<close>
  then changes nothing and does nothing, and \<open>stop\<close> on a controller without a process
  is a no-op in any case.
\<close>

lemma stop_idle_unless_blocked:
  assumes "\<not> wait_blocks w"
  shows "raised (stop w p) = None \<and>
   player_process (after (stop w p)) = None \<and>
   \<not> is_playing (after (stop w (run cs init_player))) \<and>
   \<not> is_paused (after (stop w (run cs init_player))) \<and>
   after (stop w' (after (stop w p))) = after (stop w p) \<and>
   trace (stop w' (after (stop w p))) = [] \<and>
   (player_process q = None \<longrightarrow> stop w' q = \<lparr>raised = None, trace = [], after = q\<rparr>)"
proof -
  have "raised (stop w p) = None"
    using assms by (simp add: stop_raised)
  moreover have none: "player_process (after (stop w p)) = None"
    using assms by (simp add: stop_after)
  moreover have "\<not> is_playing (after (stop w (run cs init_player))) \<and>
      \<not> is_paused (after (stop w (run cs init_player)))"
    by (rule stop_clears_flags [OF consistent_reachable assms])
  moreover have "stop w' (after (stop w p)) =
      \<lparr>raised = None, trace = [], after = after (stop w p)\<rparr>"
    using none by (rule stop_idle_noop)
  ultimately show ?thesis
    by (simp add: stop_idle_noop)
qed

text \<open>
  C7: where the code departs from the claim. After \<open>play\<close> and \<open>pause\<close> the player
  process is suspended; \<open>stop\<close> sends it \<open>SIGTERM\<close> and waits, the process does not
  exit, and \<open>wait()\<close> blocks. \<open>stop\<close> ends only by the user's interrupt, which
  \<open>except Exception\<close> does not swallow: the three assignments are never reached and the
  controller still has its process and is still playing and paused.
\<close>

theorem stop_blocks_on_paused_player:
  "run [(calm_world, Play (Some [track_a])), (calm_world, Pause)] init_player =
     \<lparr>current_playlist = [track_a], current_track_index = 0, is_playing = True,
      is_paused = True, player_process = Some 7\<rparr> \<and>
   stop stalled_world
     (run [(calm_world, Play (Some [track_a])), (calm_world, Pause)] init_player) =
     \<lparr>raised = Some KeyboardInterrupt, trace = [Terminate 7, Wait 7],
      after = \<lparr>current_playlist = [track_a], current_track_index = 0, is_playing = True,
        is_paused = True, player_process = Some 7\<rparr>\<rparr>"
  by (simp add: play_def pause_def stop_def init_player_def calm_world_def stalled_world_def
        py_index_def)

subsection \<open>Skipping forwards and backwards\<close>

lemma next_track_step:
  assumes "current_playlist p \<noteq> []"
  shows "current_playlist (after (next_track w p)) = current_playlist p"
    and "current_track_index (after (next_track w p)) =
         (current_track_index p + 1) mod int (length (current_playlist p))"
  using assms by (simp_all add: next_track_def play_None_frame)

lemma previous_track_step:
  assumes "current_playlist p \<noteq> []"
  shows "current_playlist (after (previous_track w p)) = current_playlist p"
    and "current_track_index (after (previous_track w p)) =
         (current_track_index p - 1) mod int (length (current_playlist p))"
  using assms by (simp_all add: previous_track_def play_None_frame)

lemma run_next:
  assumes "current_playlist p \<noteq> []"
    and "0 \<le> current_track_index p"
    and "current_track_index p < int (length (current_playlist p))"
  shows "current_playlist (run (map (\<lambda>w. (w, Next)) ws) p) = current_playlist p \<and>
         current_track_index (run (map (\<lambda>w. (w, Next)) ws) p) =
         (current_track_index p + int (length ws)) mod int (length (current_playlist p))"
  using assms
proof (induction ws arbitrary: p)
  case Nil
  then show ?case by simp
next
  case (Cons w ws)
  let ?q = "after (next_track w p)"
  have q: "current_playlist ?q = current_playlist p"
    and i: "current_track_index ?q =
            (current_track_index p + 1) mod int (length (current_playlist p))"
    using Cons.prems(1) by (rule next_track_step)+
  have "current_playlist ?q \<noteq> []" "0 \<le> current_track_index ?q"
    "current_track_index ?q < int (length (current_playlist ?q))"
    using Cons.prems(1) by (simp_all add: q i)
  from Cons.IH [OF this] show ?case
    by (simp add: q i mod_simps ac_simps)
qed

lemma run_previous:
  assumes "current_playlist p \<noteq> []"
    and "0 \<le> current_track_index p"
    and "current_track_index p < int (length (current_playlist p))"
  shows "current_playlist (run (map (\<lambda>w. (w, Previous)) ws) p) = current_playlist p \<and>
         current_track_index (run (map (\<lambda>w. (w, Previous)) ws) p) =
         (current_track_index p - int (length ws)) mod int (length (current_playlist p))"
  using assms
proof (induction ws arbitrary: p)
  case Nil
  then show ?case by simp
next
  case (Cons w ws)
  let ?q = "after (previous_track w p)"
  have q: "current_playlist ?q = current_playlist p"
    and i: "current_track_index ?q =
            (current_track_index p - 1) mod int (length (current_playlist p))"
    using Cons.prems(1) by (rule previous_track_step)+
  have "current_playlist ?q \<noteq> []" "0 \<le> current_track_index ?q"
    "current_track_index ?q < int (length (current_playlist ?q))"
    using Cons.prems(1) by (simp_all add: q i)
  from Cons.IH [OF this] show ?case
    by (simp add: q i mod_simps algebra_simps)
qed

text \<open>
  C6. On a non-empty queue of length N with the index c in 0 .. N-1, \<open>next_track\<close>
  moves the index to (c + 1) mod N (to 0 from the last position) and \<open>previous_track\<close>
  to (c - 1) mod N (to N-1 from position 0), both keeping the queue; N calls of either,
  whatever the outside world answers in each, bring the index back to c. On an empty
  queue both do nothing.
\<close>

theorem next_previous_wraparound:
  assumes "current_playlist p \<noteq> []"
    and "0 \<le> current_track_index p"
    and "current_track_index p < int (length (current_playlist p))"
  shows
   "current_track_index (after (next_track w p)) =
      (current_track_index p + 1) mod int (length (current_playlist p)) \<and>
    current_track_index (after (next_track w p)) =
      (if current_track_index p = int (length (current_playlist p)) - 1 then 0
       else current_track_index p + 1) \<and>
    current_track_index (after (previous_track w p)) =
      (current_track_index p - 1) mod int (length (current_playlist p)) \<and>
    current_track_index (after (previous_track w p)) =
      (if current_track_index p = 0 then int (length (current_playlist p)) - 1
       else current_track_index p - 1) \<and>
    current_playlist (after (next_track w p)) = current_playlist p \<and>
    current_playlist (after (previous_track w p)) = current_playlist p \<and>
    (\<forall>ws. length ws = length (current_playlist p) \<longrightarrow>
       current_track_index (run (map (\<lambda>w. (w, Next)) ws) p) = current_track_index p \<and>
       current_track_index (run (map (\<lambda>w. (w, Previous)) ws) p) = current_track_index p) \<and>
    (current_playlist q = [] \<longrightarrow>
       next_track w q = \<lparr>raised = None, trace = [], after = q\<rparr> \<and>
       previous_track w q = \<lparr>raised = None, trace = [], after = q\<rparr>)"
proof -
  let ?n = "int (length (current_playlist p))"
  let ?c = "current_track_index p"
  have n: "0 < ?n" using assms(1) by simp
  have nxt: "current_track_index (after (next_track w p)) = (?c + 1) mod ?n"
    and prv: "current_track_index (after (previous_track w p)) = (?c - 1) mod ?n"
    using assms(1) by (simp_all add: next_track_step previous_track_step)
  have nxt': "(?c + 1) mod ?n = (if ?c = ?n - 1 then 0 else ?c + 1)"
    using assms(2,3) by simp
  have prv': "(?c - 1) mod ?n = (if ?c = 0 then ?n - 1 else ?c - 1)"
  proof (cases "?c = 0")
    case True
    have "(- 1) mod ?n = ?n - 1"
      using n by (simp add: zmod_minus1)
    then show ?thesis using True by simp
  next
    case False
    then show ?thesis using assms(2,3) by simp
  qed
  have cyc: "current_track_index (run (map (\<lambda>w. (w, Next)) ws) p) = ?c \<and>
             current_track_index (run (map (\<lambda>w. (w, Previous)) ws) p) = ?c"
    if len: "length ws = length (current_playlist p)" for ws
    using run_next [OF assms, of ws] run_previous [OF assms, of ws] assms(2,3)
    by (simp add: len)
  have empty: "next_track w q = \<lparr>raised = None, trace = [], after = q\<rparr> \<and>
               previous_track w q = \<lparr>raised = None, trace = [], after = q\<rparr>"
    if "current_playlist q = []"
    using that by (simp add: next_track_def previous_track_def)
  show ?thesis
    using nxt prv nxt' prv' cyc empty assms(1)
    by (simp add: next_track_step previous_track_step)
qed

theorem next_previous_wraparound_witness:
  "current_playlist (run [(calm_world, Play (Some [track_a, track_b, track_c]))] init_player)
     \<noteq> [] \<and>
   current_track_index
     (run [(calm_world, Play (Some [track_a, track_b, track_c]))] init_player) = 0 \<and>
   length (current_playlist
     (run [(calm_world, Play (Some [track_a, track_b, track_c]))] init_player)) = 3 \<and>
   current_track_index (after (next_track calm_world
     (run [(calm_world, Play (Some [track_a, track_b, track_c]))] init_player))) = 1 \<and>
   current_track_index (after (previous_track hostile_world
     (run [(calm_world, Play (Some [track_a, track_b, track_c]))] init_player))) = 2 \<and>
   current_track_index
     (run [(calm_world, Next), (hostile_world, Next), (calm_world, Next)]
       (run [(calm_world, Play (Some [track_a, track_b, track_c]))] init_player)) = 0 \<and>
   current_track_index
     (run [(calm_world, Previous), (hostile_world, Previous), (calm_world, Previous)]
       (run [(calm_world, Play (Some [track_a, track_b, track_c]))] init_player)) = 0 \<and>
   current_playlist init_player = [] \<and>
   next_track calm_world init_player = \<lparr>raised = None, trace = [], after = init_player\<rparr>"
proof -
  let ?p = "run [(calm_world, Play (Some [track_a, track_b, track_c]))] init_player"
  have q: "current_playlist ?p = [track_a, track_b, track_c]"
    and c: "current_track_index ?p = 0"
    by (simp_all add: play_def stop_def init_player_def calm_world_def py_index_def)
  have e: "current_playlist init_player = []"
    by (simp add: init_player_def)
  have h: "current_playlist ?p \<noteq> []" "0 \<le> current_track_index ?p"
    "current_track_index ?p < int (length (current_playlist ?p))"
    using q c by simp_all
  note t = next_previous_wraparound [OF h, of _ init_player]
  have n1: "current_track_index (after (next_track calm_world ?p)) = 1"
    using t [of calm_world] q c by simp
  have p1: "current_track_index (after (previous_track hostile_world ?p)) = 2"
    using t [of hostile_world] q c by simp
  have "\<forall>ws. length ws = length (current_playlist ?p) \<longrightarrow>
       current_track_index (run (map (\<lambda>w. (w, Next)) ws) ?p) = current_track_index ?p \<and>
       current_track_index (run (map (\<lambda>w. (w, Previous)) ws) ?p) = current_track_index ?p"
    using t [of calm_world] by blast
  from this [rule_format, of "[calm_world, hostile_world, calm_world]"]
  have cyc: "current_track_index
       (run [(calm_world, Next), (hostile_world, Next), (calm_world, Next)] ?p) = 0"
    "current_track_index
       (run [(calm_world, Previous), (hostile_world, Previous), (calm_world, Previous)] ?p) = 0"
    using q c by simp_all
  have noop: "next_track calm_world init_player =
      \<lparr>raised = None, trace = [], after = init_player\<rparr>"
    using t [of calm_world] e by blast
  show ?thesis
    using q c e n1 p1 cyc noop by simp
qed

subsection \<open>Shuffling\<close>

text \<open>
  C9. \<open>shuffle_playlist\<close> does nothing on an empty queue; otherwise the new queue is a
  permutation of the old one, and the index, the process handle and both flags are what
  they were. The index is not moved along with the track it pointed at.
\<close>

theorem shuffle_permutes_queue_only:
  "(current_playlist p = [] \<longrightarrow>
      shuffle_playlist w p = \<lparr>raised = None, trace = [], after = p\<rparr>) \<and>
   raised (shuffle_playlist w p) = None \<and>
   mset (current_playlist (after (shuffle_playlist w p))) = mset (current_playlist p) \<and>
   current_track_index (after (shuffle_playlist w p)) = current_track_index p \<and>
   player_process (after (shuffle_playlist w p)) = player_process p \<and>
   is_playing (after (shuffle_playlist w p)) = is_playing p \<and>
   is_paused (after (shuffle_playlist w p)) = is_paused p"
  by (simp add: shuffle_playlist_def mset_random_shuffle)

theorem shuffle_permutes_queue_only_witness:
  "current_playlist init_player = [] \<and>
   shuffle_playlist calm_world init_player =
     \<lparr>raised = None, trace = [], after = init_player\<rparr> \<and>
   mset (current_playlist (after (shuffle_playlist calm_world
     (init_player\<lparr>current_playlist := [track_a, track_b, track_c]\<rparr>)))) =
     mset [track_a, track_b, track_c] \<and>
   current_track_index (after (shuffle_playlist calm_world
     (init_player\<lparr>current_playlist := [track_a, track_b, track_c]\<rparr>))) = 0 \<and>
   py_index (current_playlist (after (shuffle_playlist calm_world
     (init_player\<lparr>current_playlist := [track_a, track_b, track_c]\<rparr>)))) 0 = Some track_b"
proof -
  have e: "current_playlist init_player = []"
    by (simp add: init_player_def)
  have moved: "py_index (current_playlist (after (shuffle_playlist calm_world
     (init_player\<lparr>current_playlist := [track_a, track_b, track_c]\<rparr>)))) 0 = Some track_b"
    by (simp add: shuffle_playlist_def random_shuffle_def swap_at_def calm_world_def
          py_index_def upt_rec numeral_2_eq_2 numeral_3_eq_3)
  show ?thesis
    using e moved
      shuffle_permutes_queue_only [of init_player calm_world]
      shuffle_permutes_queue_only
        [of "init_player\<lparr>current_playlist := [track_a, track_b, track_c]\<rparr>" calm_world]
    by (simp add: init_player_def)
qed

subsection \<open>Starting playback\<close>

lemma play_Nil_eq: "play w (Some []) p = play w None p"
  by (simp add: play_def)

lemma play_nonempty_queue:
  "current_playlist (after (play w (Some (t # ts)) p)) = t # ts"
  "current_track_index (after (play w (Some (t # ts)) p)) = 0"
  by (simp_all add: play_def Let_def stop_after py_index_def split: sum.splits)

lemma play_None_trace:
  assumes "current_playlist p \<noteq> []"
    and "raised (stop w p) = None"
    and "py_index (current_playlist p) (current_track_index p) = Some t"
  shows "\<exists>msg. trace (play w None p) =
           trace (stop w p) @
           [Popen [''mpv'', t_path t, ''--no-video'', ''--terminal=no''], Print msg]"
  using assms by (simp add: play_def Let_def stop_frame split: sum.splits)

text \<open>
  What \<open>play\<close> with an empty list does: the same as \<open>play\<close> without a list. On a
  non-empty queue it keeps queue and index and does not report an empty queue; when
  \<open>stop\<close> returns, it then starts the player on the track at the index.
\<close>

lemma play_empty_list_like_no_list:
  "play w (Some []) p = play w None p \<and>
   (current_playlist p \<noteq> [] \<longrightarrow>
      current_playlist (after (play w (Some []) p)) = current_playlist p \<and>
      current_track_index (after (play w (Some []) p)) = current_track_index p \<and>
      Print ''No tracks to play.'' \<notin> set (trace (play w (Some []) p)) \<and>
      (\<forall>t. raised (stop w p) = None \<and>
           py_index (current_playlist p) (current_track_index p) = Some t \<longrightarrow>
         (\<exists>msg. trace (play w (Some []) p) =
            trace (stop w p) @
            [Popen [''mpv'', t_path t, ''--no-video'', ''--terminal=no''], Print msg])))"
proof -
  have "Print ''No tracks to play.'' \<notin> set (trace (play w None p))"
    if "current_playlist p \<noteq> []"
    using that
    by (auto simp: play_def Let_def stop_def split: option.splits sum.splits if_splits)
  then show ?thesis
    by (simp add: play_Nil_eq play_None_frame play_None_trace)
qed

text \<open>
  C10: where the code departs from the claim. The queue is [a, b] with the index 1, the
  player is running and has been paused. \<open>play\<close> with the empty list keeps the queue
  and the index, as the claim says, but it does not restart playback: its \<open>stop\<close>
  blocks in \<open>wait()\<close> on the suspended process and \<open>Popen\<close> is never reached.
  \<open>play\<close> without a list does the same.
\<close>

theorem play_empty_list_blocks_on_paused_player:
  "run [(calm_world, Play (Some [track_a, track_b])), (calm_world, Next), (calm_world, Pause)]
     init_player =
     \<lparr>current_playlist = [track_a, track_b], current_track_index = 1, is_playing = True,
      is_paused = True, player_process = Some 7\<rparr> \<and>
   play stalled_world (Some [])
     (run [(calm_world, Play (Some [track_a, track_b])), (calm_world, Next), (calm_world, Pause)]
       init_player) =
     \<lparr>raised = Some KeyboardInterrupt, trace = [Terminate 7, Wait 7],
      after = \<lparr>current_playlist = [track_a, track_b], current_track_index = 1,
        is_playing = True, is_paused = True, player_process = Some 7\<rparr>\<rparr> \<and>
   play stalled_world None
     (run [(calm_world, Play (Some [track_a, track_b])), (calm_world, Next), (calm_world, Pause)]
       init_player) =
     \<lparr>raised = Some KeyboardInterrupt, trace = [Terminate 7, Wait 7],
      after = \<lparr>current_playlist = [track_a, track_b], current_track_index = 1,
        is_playing = True, is_paused = True, player_process = Some 7\<rparr>\<rparr>"
  by (simp add: play_def next_track_def pause_def stop_def init_player_def calm_world_def
        stalled_world_def py_index_def)

text \<open>
  C1, as amended. \<open>play\<close> with a non-empty list makes that list the queue and sets the
  index to 0. Whenever the queue after the call is empty, the call has only printed
  "No tracks to play.": it has started no process and has changed no attribute.
\<close>

theorem play_replaces_queue:
  "(ts \<noteq> [] \<longrightarrow>
      current_playlist (after (play w (Some ts) p)) = ts \<and>
      current_track_index (after (play w (Some ts) p)) = 0) \<and>
   (current_playlist (after (play w arg p)) = [] \<longrightarrow>
      play w arg p = \<lparr>raised = None, trace = [Print ''No tracks to play.''], after = p\<rparr>)"
proof -
  have a: "current_playlist (after (play w (Some ts) p)) = ts \<and>
      current_track_index (after (play w (Some ts) p)) = 0" if "ts \<noteq> []"
    using that by (cases ts) (simp_all add: play_nonempty_queue)
  have b: "play w arg p = \<lparr>raised = None, trace = [Print ''No tracks to play.''], after = p\<rparr>"
    if e: "current_playlist (after (play w arg p)) = []"
  proof -
    have "arg = None \<or> arg = Some [] \<or> (\<exists>t ts'. arg = Some (t # ts'))"
    proof (cases arg)
      case None
      then show ?thesis by simp
    next
      case (Some xs)
      then show ?thesis by (cases xs) simp_all
    qed
    moreover have False if "arg = Some (t # ts')" for t ts'
      using e that by (simp add: play_nonempty_queue)
    ultimately have n: "play w arg p = play w None p"
      by (auto simp: play_Nil_eq)
    then have "current_playlist p = []"
      using e by (simp add: play_None_frame)
    then show ?thesis
      unfolding n by (simp add: play_def)
  qed
  show ?thesis using a b by blast
qed

theorem play_replaces_queue_witness:
  "[track_a] \<noteq> [] \<and>
   current_playlist (after (play hostile_world (Some [track_a]) init_player)) = [track_a] \<and>
   current_track_index (after (play hostile_world (Some [track_a]) init_player)) = 0 \<and>
   current_playlist (after (play calm_world (Some []) init_player)) = [] \<and>
   play calm_world (Some []) init_player =
     \<lparr>raised = None, trace = [Print ''No tracks to play.''], after = init_player\<rparr>"
proof -
  have e: "current_playlist (after (play calm_world (Some []) init_player)) = []"
    by (simp add: play_def init_player_def)
  show ?thesis
    using e play_replaces_queue [of "[track_a]" hostile_world init_player "Some []"]
      play_replaces_queue [of "[track_a]" calm_world init_player "Some []"]
    by simp
qed

text \<open>
  C1 as first stated fails: with the queue [a, b] and the index 1, reached by playing
  [a, b] and skipping once, \<open>play\<close> with the empty list neither empties the queue nor
  resets the index; it restarts the player on b.
\<close>

theorem play_empty_list_keeps_queue:
  "current_playlist (after (play calm_world (Some [])
     (run [(calm_world, Play (Some [track_a, track_b])), (calm_world, Next)] init_player)))
     \<noteq> [] \<and>
   current_track_index (after (play calm_world (Some [])
     (run [(calm_world, Play (Some [track_a, track_b])), (calm_world, Next)] init_player)))
     \<noteq> 0 \<and>
   Popen [''mpv'', ''/music/b.FLAC'', ''--no-video'', ''--terminal=no'']
     \<in> set (trace (play calm_world (Some [])
       (run [(calm_world, Play (Some [track_a, track_b])), (calm_world, Next)] init_player)))"
  by (simp add: play_def next_track_def stop_def init_player_def calm_world_def py_index_def
        track_b_def)

section \<open>Properties of the catalog\<close>

subsection \<open>Paths that SQLite can bind\<close>

lemma utf8_run_Nil: "utf8_run st [] = st"
  by (simp add: utf8_run_def)

lemma utf8_run_Cons: "utf8_run st (c # s) = utf8_run (utf8_step st (of_char c)) s"
  by (simp add: utf8_run_def)

lemma utf8_run_append: "utf8_run st (s @ t) = utf8_run (utf8_run st s) t"
  by (simp add: utf8_run_def)

lemma utf8_run_Error: "utf8_run U_Error s = U_Error"
  by (induction s) (simp_all add: utf8_run_Nil utf8_run_Cons)

lemma utf8_step_ascii:
  "b < 128 \<Longrightarrow> utf8_step st b = (if st = U_Start then U_Start else U_Error)"
  by (cases st) simp_all

text \<open>A slash ends every character before it: what follows a slash is judged alone.\<close>

lemma valid_utf8_after_slash:
  assumes "valid_utf8 (a @ ''/'' @ b)"
  shows "valid_utf8 b"
proof -
  have s: "utf8_step st (of_char CHR ''/'') = (if st = U_Start then U_Start else U_Error)"
    for st
    by (rule utf8_step_ascii) simp
  have "utf8_run (utf8_step (utf8_run U_Start a) (of_char CHR ''/'')) b = U_Start"
    using assms by (simp add: valid_utf8_def utf8_run_append utf8_run_Cons)
  then show ?thesis
    unfolding s valid_utf8_def
    by (cases "utf8_run U_Start a = U_Start") (simp_all add: utf8_run_Error)
qed

lemma endswith_slash: "endswith a ''/'' \<Longrightarrow> \<exists>a'. a = a' @ ''/''"
proof -
  assume e: "endswith a ''/''"
  then have "a \<noteq> []" by (auto simp: endswith_def)
  then have "a = butlast a @ [last a]" by simp
  moreover have "drop (length a - 1) a = [last a]"
    using \<open>a \<noteq> []\<close> by (metis append_butlast_last_id append_eq_conv_conj length_butlast)
  ultimately show ?thesis
    using e by (auto simp: endswith_def)
qed

lemma valid_path_join:
  assumes "valid_utf8 (path_join root f)"
  shows "valid_utf8 f"
proof (cases "take 1 f = ''/'' \<or> root = []")
  case True
  then have "path_join root f = f"
    by (auto simp: path_join_def)
  then show ?thesis using assms by simp
next
  case False
  show ?thesis
  proof (cases "endswith root ''/''")
    case True
    then obtain a' where "root = a' @ ''/''"
      using endswith_slash by blast
    then have "path_join root f = a' @ ''/'' @ f"
      using False True by (simp add: path_join_def)
    then show ?thesis
      using assms valid_utf8_after_slash by metis
  next
    case no: False
    then have "path_join root f = root @ ''/'' @ f"
      using False by (simp add: path_join_def)
    then show ?thesis
      using assms valid_utf8_after_slash by metis
  qed
qed

lemma valid_defaults: "valid_utf8 ''Unknown Artist''" "valid_utf8 ''Unknown Album''"
  by (simp_all add: valid_utf8_def utf8_run_def)

subsection \<open>Row ids\<close>

lemma next_rowid_empty: "next_rowid pick [] = Some 1"
  by (simp add: next_rowid_def)

lemma next_rowid_fresh:
  "next_rowid pick ids = Some i \<Longrightarrow> i \<notin> set ids"
proof -
  assume a: "next_rowid pick ids = Some i"
  show ?thesis
  proof (cases "ids = []")
    case True
    then show ?thesis by simp
  next
    case False
    then have m: "\<forall>j \<in> set ids. j \<le> Max (set ids)" by simp
    show ?thesis
    proof (cases "Max (set ids) < max_rowid")
      case True
      then have "i = Max (set ids) + 1"
        using a False by (simp add: next_rowid_def)
      then show ?thesis using m by fastforce
    next
      case no: False
      then show ?thesis
        using a False by (auto simp: next_rowid_def split: option.splits if_splits)
    qed
  qed
qed

subsection \<open>One step of a scan\<close>


lemma first_of_None: "first_of v dflt = None \<longleftrightarrow> v = Some []"
  by (cases "(v, dflt)" rule: first_of.cases) simp_all

lemma extract_fails:
  "extraction_fails m \<Longrightarrow>
   extract_metadata m = (''Unknown Artist'', ''Unknown Album'', PyInt 0)"
  by (cases m) (auto simp: default_metadata_def first_of_None split: option.splits)

lemma extract_length_tag:
  "extract_metadata m = (a, b, PyStrList v) \<Longrightarrow>
   \<not> extraction_fails m \<and> (\<exists>tags. m = MutagenTags tags \<and> tags ''length'' = Some v)"
  by (cases m) (auto simp: default_metadata_def first_of_None split: option.splits)

lemma extract_number: "extract_metadata m = (a, b, PyInt d) \<Longrightarrow> d = 0"
  by (cases m) (auto simp: default_metadata_def split: option.splits)

lemma extract_cases:
  obtains (number) a b where "extract_metadata m = (a, b, PyInt 0)"
  | (list) a b v where "extract_metadata m = (a, b, PyStrList v)"
proof (cases "extract_metadata m")
  case (fields a b d)
  show ?thesis
  proof (cases d)
    case (PyInt k)
    then have "k = 0" using fields extract_number by blast
    then show ?thesis using number fields PyInt by blast
  next
    case (PyStrList v)
    then show ?thesis using list fields by blast
  qed
qed

lemma insert_track_outcome:
  "insert_track pick p f a b d db = r \<Longrightarrow>
   (r = Inl UnicodeEncodeError \<and> \<not> (valid_utf8 p \<and> valid_utf8 f \<and> valid_utf8 a \<and> valid_utf8 b)) \<or>
   (r = Inl BindingError \<and> (\<exists>v. d = PyStrList v)) \<or>
   (r = Inl OverflowError \<and> (\<exists>k. d = PyInt k \<and> \<not> sqlite_int k)) \<or>
   (r = Inl OperationalError \<and> next_rowid pick (map r_id (tracks db)) = None) \<or>
   (r = Inl IntegrityError \<and> p \<in> set (map r_path (tracks db))) \<or>
   (\<exists>i k. d = PyInt k \<and> valid_utf8 p \<and> valid_utf8 f \<and> valid_utf8 a \<and> valid_utf8 b \<and>
      p \<notin> set (map r_path (tracks db)) \<and>
      next_rowid pick (map r_id (tracks db)) = Some i \<and>
      r = Inr (db\<lparr>tracks := tracks db @
             [\<lparr>r_id = i, r_path = p, r_filename = f, r_artist = a, r_album = b,
               r_duration = k\<rparr>]\<rparr>))"
  unfolding insert_track_def
  by (cases d; cases "next_rowid pick (map r_id (tracks db))") (auto split: if_splits)

lemma scan_file_unsupported:
  "\<not> supported f \<Longrightarrow> scan_file env root f (db, n) = (None, db, n)"
  by (simp add: scan_file_def)

lemma scan_file_bad_path:
  "supported f \<Longrightarrow> \<not> valid_utf8 (path_join root f) \<Longrightarrow>
   scan_file env root f (db, n) = (Some UnicodeEncodeError, db, n)"
  by (simp add: scan_file_def)

lemma scan_file_known:
  "supported f \<Longrightarrow> valid_utf8 (path_join root f) \<Longrightarrow>
   path_join root f \<in> set (paths db) \<Longrightarrow>
   scan_file env root f (db, n) = (None, db, n)"
  by (simp add: scan_file_def paths_def)

lemma scan_file_new:
  assumes "supported f" and "valid_utf8 (path_join root f)"
    and "path_join root f \<notin> set (paths db)"
    and "extract_metadata (mutagen_File env (path_join root f)) = (a, b, d)"
  shows "scan_file env root f (db, n) =
     (case insert_track (random_rowid env) (path_join root f) f a b d db of
        Inl e \<Rightarrow> (Some e, db, n)
      | Inr db' \<Rightarrow> (None, db', n + 1))"
  using assms by (simp add: scan_file_def paths_def)

text \<open>The three ways the loop body can end.\<close>

lemma scan_file_cases:
  assumes "scan_file env root f (db, n) = (e, db', n')"
  obtains
    (skip) "e = None" "db' = db" "n' = n"
      "supported f \<longrightarrow> valid_utf8 (path_join root f) \<and> path_join root f \<in> set (paths db)"
  | (insert) a b i where "e = None" "n' = n + 1"
      "supported f" "valid_utf8 (path_join root f)" "path_join root f \<notin> set (paths db)"
      "extract_metadata (mutagen_File env (path_join root f)) = (a, b, PyInt 0)"
      "next_rowid (random_rowid env) (map r_id (tracks db)) = Some i"
      "db' = db\<lparr>tracks := tracks db @
         [\<lparr>r_id = i, r_path = path_join root f, r_filename = f, r_artist = a,
           r_album = b, r_duration = 0\<rparr>]\<rparr>"
  | (abort) x where "e = Some x" "db' = db" "n' = n" "supported f"
proof (cases "supported f")
  case False
  then show ?thesis
    using assms skip by (auto simp: scan_file_unsupported)
next
  case sup: True
  show ?thesis
  proof (cases "valid_utf8 (path_join root f)")
    case False
    then show ?thesis
      using assms sup abort by (auto simp: scan_file_bad_path)
  next
    case valid: True
    show ?thesis
    proof (cases "path_join root f \<in> set (paths db)")
      case True
      then show ?thesis
        using assms sup valid skip by (auto simp: scan_file_known)
    next
      case new: False
      obtain a b d where ex: "extract_metadata (mutagen_File env (path_join root f)) = (a, b, d)"
        by (cases "extract_metadata (mutagen_File env (path_join root f))")
      let ?r = "insert_track (random_rowid env) (path_join root f) f a b d db"
      note step = scan_file_new [OF sup valid new ex, of n]
      show ?thesis
      proof (cases ?r)
        case (Inl x)
        then show ?thesis
          using assms step sup abort by auto
      next
        case (Inr db1)
        from insert_track_outcome [OF Inr] obtain i k where
          d: "d = PyInt k"
          and i: "next_rowid (random_rowid env) (map r_id (tracks db)) = Some i"
          and db1: "db1 = db\<lparr>tracks := tracks db @
             [\<lparr>r_id = i, r_path = path_join root f, r_filename = f, r_artist = a,
               r_album = b, r_duration = k\<rparr>]\<rparr>"
          by auto
        have k: "k = 0"
          using ex d extract_number by blast
        show ?thesis
          using assms step Inr insert [of a b i] sup valid new ex d k i db1 by auto
      qed
    qed
  qed
qed

lemma scan_file_present:
  assumes "supported f \<longrightarrow> valid_utf8 (path_join root f) \<and> path_join root f \<in> set (paths db)"
  shows "scan_file env root f (db, n) = (None, db, n)"
  using assms by (cases "supported f") (simp_all add: scan_file_unsupported scan_file_known)

text \<open>
  Why a step raises: the path cannot be encoded (line 80), a tag value cannot be encoded,
  the \<open>length\<close> tag is a list, or no rowid is left (line 96). All of these are raised by
  \<open>execute\<close>.
\<close>

lemma scan_file_abort:
  assumes "scan_file env root f (db, n) = (Some e, st')"
  shows "supported f \<and>
     ((e = UnicodeEncodeError \<and> \<not> valid_utf8 (path_join root f)) \<or>
      (e = UnicodeEncodeError \<and> \<not> extraction_fails (mutagen_File env (path_join root f))) \<or>
      (e = BindingError \<and> \<not> extraction_fails (mutagen_File env (path_join root f)) \<and>
         (\<exists>tags v. mutagen_File env (path_join root f) = MutagenTags tags \<and>
            tags ''length'' = Some v)) \<or>
      (e = OperationalError \<and>
         next_rowid (random_rowid env) (map r_id (tracks db)) = None))"
proof -
  let ?p = "path_join root f"
  let ?m = "mutagen_File env ?p"
  have sup: "supported f"
    using assms by (cases "supported f") (simp_all add: scan_file_unsupported)
  show ?thesis
  proof (cases "valid_utf8 ?p")
    case False
    then show ?thesis
      using assms sup by (simp add: scan_file_bad_path)
  next
    case True
    then have vf: "valid_utf8 f" by (rule valid_path_join)
    have new: "?p \<notin> set (paths db)"
      using assms sup True by (cases "?p \<in> set (paths db)") (simp_all add: scan_file_known)
    obtain a b d where ex: "extract_metadata ?m = (a, b, d)"
      by (cases "extract_metadata ?m")
    let ?r = "insert_track (random_rowid env) ?p f a b d db"
    have r: "?r = Inl e"
      using assms scan_file_new [OF sup True new ex, of n] by (cases ?r) simp_all
    have ok: "\<not> extraction_fails ?m" if "\<not> (valid_utf8 a \<and> valid_utf8 b)"
      using that ex extract_fails [of ?m] valid_defaults by auto
    have num: "k = 0" if "d = PyInt k" for k
      using that ex extract_number by blast
    have lst: "\<not> extraction_fails ?m \<and> (\<exists>tags. ?m = MutagenTags tags \<and> tags ''length'' = Some v)"
      if "d = PyStrList v" for v
      using that ex extract_length_tag by blast
    from insert_track_outcome [OF r] show ?thesis
      using sup True vf new ok num lst by (auto simp: paths_def sqlite_int_def)
  qed
qed

subsection \<open>Invariants of the two loops\<close>

lemma scan_files_invariant:
  assumes "scan_files env root files st = (e, st')"
    and "P st"
    and "\<And>file s e' s'. file \<in> set files \<Longrightarrow> P s \<Longrightarrow>
           scan_file env root file s = (e', s') \<Longrightarrow> P s'"
  shows "P st'"
  using assms
proof (induction files arbitrary: st)
  case Nil
  then show ?case by simp
next
  case (Cons f files)
  obtain e1 s1 where s1: "scan_file env root f st = (e1, s1)"
    by (cases "scan_file env root f st")
  have p1: "P s1"
    using Cons.prems(3) [OF _ Cons.prems(2) s1] by simp
  show ?case
  proof (cases e1)
    case None
    with Cons.prems(1) s1 have rest: "scan_files env root files s1 = (e, st')"
      by simp
    have "P s'" if "f' \<in> set files" "P s" "scan_file env root f' s = (e', s')"
      for f' s e' s'
      using Cons.prems(3) [of f' s e' s'] that by simp
    from Cons.IH [OF rest p1 this] show ?thesis .
  next
    case (Some err)
    with Cons.prems(1) s1 have "st' = s1" by simp
    with p1 show ?thesis by simp
  qed
qed

lemma scan_walk_invariant:
  assumes "scan_walk env walk st = (e, st')"
    and "P st"
    and "\<And>root dirs files file s e' s'. (root, dirs, files) \<in> set walk \<Longrightarrow>
           file \<in> set files \<Longrightarrow> P s \<Longrightarrow>
           scan_file env root file s = (e', s') \<Longrightarrow> P s'"
  shows "P st'"
  using assms
proof (induction walk arbitrary: st)
  case Nil
  then show ?case by simp
next
  case (Cons x walk)
  obtain root dirs files where x: "x = (root, dirs, files)"
    by (cases x)
  obtain e1 s1 where s1: "scan_files env root files st = (e1, s1)"
    by (cases "scan_files env root files st")
  have p1: "P s1"
  proof (rule scan_files_invariant [where P = P, OF s1 Cons.prems(2)])
    fix f s e' s'
    assume "f \<in> set files" "P s" "scan_file env root f s = (e', s')"
    then show "P s'"
      using Cons.prems(3) [of root dirs files f s e' s'] x by simp
  qed
  show ?case
  proof (cases e1)
    case None
    with Cons.prems(1) s1 x have rest: "scan_walk env walk s1 = (e, st')"
      by simp
    have "P s'" if "(r, ds, fs) \<in> set walk" "f \<in> set fs" "P s"
      "scan_file env r f s = (e', s')" for r ds fs f s e' s'
      using Cons.prems(3) [of r ds fs f s e' s'] that by simp
    from Cons.IH [OF rest p1 this] show ?thesis .
  next
    case (Some err)
    with Cons.prems(1) s1 x have "st' = s1" by simp
    with p1 show ?thesis by simp
  qed
qed

subsection \<open>What a scan does to the table of tracks\<close>

lemma scan_walk_distinct:
  assumes "scan_walk env walk (db, n) = (e, db', n')" and "distinct (paths db)"
  shows "distinct (paths db')"
proof -
  have "distinct (paths (fst (db', n')))"
  proof (rule scan_walk_invariant [where P = "\<lambda>s. distinct (paths (fst s))", OF assms(1)])
    show "distinct (paths (fst (db, n)))" using assms(2) by simp
  next
    fix root f s e' s'
    assume "distinct (paths (fst s))" "scan_file env root f s = (e', s')"
    then show "distinct (paths (fst s'))"
      by (cases s, cases s') (auto elim!: scan_file_cases simp: paths_def)
  qed
  then show ?thesis by simp
qed

lemma scan_walk_mono:
  assumes "scan_walk env walk (db, n) = (e, db', n')"
  shows "set (paths db) \<subseteq> set (paths db')"
proof -
  have "set (paths db) \<subseteq> set (paths (fst (db', n')))"
  proof (rule scan_walk_invariant
      [where P = "\<lambda>s. set (paths db) \<subseteq> set (paths (fst s))", OF assms(1)])
    show "set (paths db) \<subseteq> set (paths (fst (db, n)))" by simp
  next
    fix root f s e' s'
    assume "set (paths db) \<subseteq> set (paths (fst s))" "scan_file env root f s = (e', s')"
    then show "set (paths db) \<subseteq> set (paths (fst s'))"
      by (cases s, cases s') (auto elim!: scan_file_cases simp: paths_def)
  qed
  then show ?thesis by simp
qed

lemma scan_walk_count:
  assumes "scan_walk env walk (db, n) = (e, db', n')"
  shows "length (tracks db') + n = length (tracks db) + n'"
proof -
  have "length (tracks (fst (db', n'))) + n = length (tracks db) + snd (db', n')"
  proof (rule scan_walk_invariant
      [where P = "\<lambda>s. length (tracks (fst s)) + n = length (tracks db) + snd s", OF assms(1)])
    show "length (tracks (fst (db, n))) + n = length (tracks db) + snd (db, n)" by simp
  next
    fix root f s e' s'
    assume "length (tracks (fst s)) + n = length (tracks db) + snd s"
      "scan_file env root f s = (e', s')"
    then show "length (tracks (fst s')) + n = length (tracks db) + snd s'"
      by (cases s, cases s') (auto elim!: scan_file_cases)
  qed
  then show ?thesis by simp
qed



lemma scan_walk_defaults:
  assumes "scan_walk env walk (db, n) = (e, db', n')"
    and "r \<in> set (tracks db')" and "r_path r \<notin> set (paths db)"
    and "extraction_fails (mutagen_File env (r_path r))"
  shows "r_artist r = ''Unknown Artist'' \<and> r_album r = ''Unknown Album'' \<and> r_duration r = 0"
proof -
  let ?P = "\<lambda>s. \<forall>r \<in> set (tracks (fst s)).
      r_path r \<notin> set (paths db) \<and> extraction_fails (mutagen_File env (r_path r)) \<longrightarrow>
      r_artist r = ''Unknown Artist'' \<and> r_album r = ''Unknown Album'' \<and> r_duration r = 0"
  have "?P (db', n')"
  proof (rule scan_walk_invariant [where P = ?P, OF assms(1)])
    show "?P (db, n)" by (auto simp: paths_def)
  next
    fix root f s e' s'
    assume p: "?P s" and step: "scan_file env root f s = (e', s')"
    obtain d0 n0 d1 n1 where s: "s = (d0, n0)" "s' = (d1, n1)"
      by (cases s, cases s')
    from step [unfolded s] show "?P s'"
    proof (cases rule: scan_file_cases)
      case skip
      then show ?thesis using p s by simp
    next
      case (insert a b i)
      have "a = ''Unknown Artist'' \<and> b = ''Unknown Album''"
        if "extraction_fails (mutagen_File env (path_join root f))"
        using extract_fails [OF that] insert(6) by simp
      then show ?thesis using p s insert(8) by auto
    next
      case (abort x)
      then show ?thesis using p s by simp
    qed
  qed
  then show ?thesis using assms(2-4) by auto
qed

lemma scan_files_mono:
  assumes "scan_files env root files (db, n) = (e, db', n')"
  shows "set (paths db) \<subseteq> set (paths db')"
  using scan_walk_mono [of env "[(root, [], files)]" db n e db' n'] assms
  by (auto split: prod.splits option.splits)

lemma scan_files_complete:
  assumes "scan_files env root files st = (None, st')"
    and "f \<in> set files" and "supported f"
  shows "valid_utf8 (path_join root f) \<and> path_join root f \<in> set (paths (fst st'))"
  using assms
proof (induction files arbitrary: st)
  case Nil
  then show ?case by simp
next
  case (Cons g files)
  obtain e1 d1 n1 where s1: "scan_file env root g st = (e1, d1, n1)"
    by (cases "scan_file env root g st")
  have e1: "e1 = None"
    using Cons.prems(1) s1 by (cases e1) simp_all
  have rest: "scan_files env root files (d1, n1) = (None, st')"
    using Cons.prems(1) s1 e1 by simp
  show ?case
  proof (cases "f = g")
    case True
    obtain d0 n0 where st: "st = (d0, n0)" by (cases st)
    have "valid_utf8 (path_join root g) \<and> path_join root g \<in> set (paths d1)"
      using s1 [unfolded st] Cons.prems(3) True e1
      by (cases rule: scan_file_cases) (auto simp: paths_def)
    moreover have "set (paths d1) \<subseteq> set (paths (fst st'))"
      using scan_files_mono [of env root files d1 n1 None "fst st'" "snd st'"] rest
      by simp
    ultimately show ?thesis using True by blast
  next
    case False
    then have "f \<in> set files" using Cons.prems(2) by simp
    from Cons.IH [OF rest this Cons.prems(3)] show ?thesis .
  qed
qed

lemma scan_walk_complete:
  assumes "scan_walk env walk st = (None, st')" and "p \<in> set (audio_paths walk)"
  shows "valid_utf8 p \<and> p \<in> set (paths (fst st'))"
  using assms
proof (induction walk arbitrary: st)
  case Nil
  then show ?case by simp
next
  case (Cons x walk)
  obtain root dirs files where x: "x = (root, dirs, files)" by (cases x)
  obtain e1 d1 n1 where s1: "scan_files env root files st = (e1, d1, n1)"
    by (cases "scan_files env root files st")
  have e1: "e1 = None"
    using Cons.prems(1) s1 x by (cases e1) simp_all
  have rest: "scan_walk env walk (d1, n1) = (None, st')"
    using Cons.prems(1) s1 e1 x by simp
  show ?case
  proof (cases "p \<in> set (audio_paths walk)")
    case True
    from Cons.IH [OF rest this] show ?thesis .
  next
    case False
    then obtain f where f: "f \<in> set files" "supported f" "p = path_join root f"
      using Cons.prems(2) x by auto
    have "valid_utf8 p \<and> p \<in> set (paths d1)"
      using scan_files_complete [OF s1 [unfolded e1] f(1,2)] f(3) by simp
    moreover have "set (paths d1) \<subseteq> set (paths (fst st'))"
      using scan_walk_mono [of env walk d1 n1 None "fst st'" "snd st'"] rest by simp
    ultimately show ?thesis by blast
  qed
qed

lemma scan_files_present:
  assumes "\<forall>f \<in> set files. supported f \<longrightarrow>
      valid_utf8 (path_join root f) \<and> path_join root f \<in> set (paths db)"
  shows "scan_files env root files (db, n) = (None, db, n)"
  using assms by (induction files) (simp_all add: scan_file_present)

lemma scan_walk_present:
  assumes "\<forall>p \<in> set (audio_paths walk). valid_utf8 p \<and> p \<in> set (paths db)"
  shows "scan_walk env walk (db, n) = (None, db, n)"
  using assms
proof (induction walk rule: audio_paths.induct)
  case 1
  then show ?case by simp
next
  case (2 root dirs files rest)
  have "scan_files env root files (db, n) = (None, db, n)"
    using "2.prems" by (intro scan_files_present) auto
  then show ?case using 2 by simp
qed

text \<open>
  An exception leaves a scan only from \<open>execute\<close>, and only at a file whose path cannot
  be encoded, or whose tags were read, or for which no rowid is left.
\<close>

lemma scan_files_abort:
  assumes "scan_files env root files st = (Some e, st')"
  shows "(e = UnicodeEncodeError \<or> e = BindingError \<or> e = OperationalError) \<and>
         (\<exists>f \<in> set files. supported f \<and>
            (\<not> valid_utf8 (path_join root f) \<or>
             \<not> extraction_fails (mutagen_File env (path_join root f)) \<or>
             e = OperationalError))"
  using assms
proof (induction files arbitrary: st)
  case Nil
  then show ?case by simp
next
  case (Cons g files)
  obtain e1 s1 where s1: "scan_file env root g st = (e1, s1)"
    by (cases "scan_file env root g st")
  show ?case
  proof (cases e1)
    case None
    then have "scan_files env root files s1 = (Some e, st')"
      using Cons.prems s1 by simp
    from Cons.IH [OF this] show ?thesis by auto
  next
    case (Some err)
    then have err: "err = e" using Cons.prems s1 by simp
    obtain d0 n0 where st: "st = (d0, n0)" by (cases st)
    from scan_file_abort [of env root g d0 n0 e s1] s1 Some err st
    show ?thesis by auto
  qed
qed

lemma scan_walk_abort:
  assumes "scan_walk env walk st = (Some e, st')"
  shows "(e = UnicodeEncodeError \<or> e = BindingError \<or> e = OperationalError) \<and>
         (\<exists>p \<in> set (audio_paths walk).
            \<not> valid_utf8 p \<or> \<not> extraction_fails (mutagen_File env p) \<or>
            e = OperationalError)"
  using assms
proof (induction walk arbitrary: st)
  case Nil
  then show ?case by simp
next
  case (Cons x walk)
  obtain root dirs files where x: "x = (root, dirs, files)" by (cases x)
  obtain e1 s1 where s1: "scan_files env root files st = (e1, s1)"
    by (cases "scan_files env root files st")
  show ?case
  proof (cases e1)
    case None
    then have "scan_walk env walk s1 = (Some e, st')"
      using Cons.prems s1 x by simp
    from Cons.IH [OF this] show ?thesis using x by auto
  next
    case (Some err)
    then have "err = e" using Cons.prems s1 x by simp
    then show ?thesis
      using scan_files_abort [of env root files st e s1] s1 Some x by auto
  qed
qed

subsection \<open>The sample directories\<close>

lemma supported_samples:
  "supported ''a.mp3''" "supported ''b.FLAC''" "supported ''c.ogg''" "supported ''d.mp3''"
  "\<not> supported ''notes.txt''" "supported bad_name"
  by (simp_all add: supported_def supported_formats_def endswith_def lower_def lower_char_def
        bad_name_def)

lemma joins:
  "path_join ''/music'' ''a.mp3'' = ''/music/a.mp3''"
  "path_join ''/music'' ''b.FLAC'' = ''/music/b.FLAC''"
  "path_join ''/music'' ''c.ogg'' = ''/music/c.ogg''"
  "path_join ''/music'' ''d.mp3'' = ''/music/d.mp3''"
  by (simp_all add: path_join_def endswith_def)

lemma valid_samples:
  "valid_utf8 ''/music/a.mp3''" "valid_utf8 ''/music/b.FLAC''"
  "valid_utf8 ''/music/c.ogg''" "valid_utf8 ''/music/d.mp3''"
  "valid_utf8 ''a.mp3''" "valid_utf8 ''b.FLAC''" "valid_utf8 ''c.ogg''" "valid_utf8 ''d.mp3''"
  "valid_utf8 ''Ann''" "valid_utf8 ''Cy''" "valid_utf8 ''First''" "valid_utf8 ''Second''"
  "valid_utf8 ''Favorites''"
  by (simp_all add: valid_utf8_def utf8_run_def)

lemma bad_name_invalid: "\<not> valid_utf8 (path_join ''/music'' bad_name)"
  by (simp add: valid_utf8_def utf8_run_def bad_name_def path_join_def endswith_def)

lemma sample_scan:
  "scan_music_library sample_env ''/music'' scenario_tree empty_database
     = (Inr 4, sample_catalog)"
  by (simp add: scan_music_library_def scenario_tree_def scan_file_def supported_samples joins
        valid_samples valid_defaults sample_env_def sample_mutagen_def insert_track_def
        sqlite_int_def next_rowid_def max_rowid_def default_metadata_def empty_database_def
        sample_catalog_def)

lemma length_tag_scan:
  "scan_music_library length_tag_env ''/music'' scenario_tree empty_database
     = (Inl BindingError, first_row_catalog)"
  by (simp add: scan_music_library_def scenario_tree_def scan_file_def supported_samples joins
        valid_samples valid_defaults length_tag_env_def length_tag_mutagen_def insert_track_def
        sqlite_int_def next_rowid_def max_rowid_def default_metadata_def empty_database_def
        first_row_catalog_def)

lemma length_tag_rescan:
  "scan_music_library length_tag_env ''/music'' scenario_tree first_row_catalog
     = (Inl BindingError, first_row_catalog)"
  by (simp add: scan_music_library_def scenario_tree_def scan_file_def supported_samples joins
        valid_samples valid_defaults length_tag_env_def length_tag_mutagen_def insert_track_def
        sqlite_int_def next_rowid_def max_rowid_def default_metadata_def
        first_row_catalog_def)

lemma bad_name_scan:
  "scan_music_library sample_env ''/music'' bad_name_tree empty_database
     = (Inl UnicodeEncodeError, empty_database)"
  by (simp add: scan_music_library_def bad_name_tree_def scan_file_def supported_samples
        bad_name_invalid)

lemma nested_walk:
  "os_walk ''/music'' nested_tree =
     [(''/music'', [''rock'', ''locked''], [''a.mp3'', ''notes.txt'']),
      (''/music/rock'', [], [''e.wav''])]"
  by (simp add: nested_tree_def path_join_def endswith_def)


subsection \<open>The whole scan\<close>

lemma scan_music_library_walk:
  obtains e k where
    "scan_walk env (os_walk music_dir fs) (db, 0) =
       (e, snd (scan_music_library env music_dir fs db), k)"
    "fst (scan_music_library env music_dir fs db) =
       (case e of None \<Rightarrow> Inr k | Some x \<Rightarrow> Inl x)"
  by (cases "scan_walk env (os_walk music_dir fs) (db, 0)")
     (auto simp: scan_music_library_def split: option.splits)

lemma scan_returns:
  assumes "scan_music_library env music_dir fs db = (Inr n, db')"
  shows "scan_walk env (os_walk music_dir fs) (db, 0) = (None, db', n)"
  using assms by (auto simp: scan_music_library_def split: prod.splits option.splits)

lemma scan_distinct:
  "distinct (paths db) \<Longrightarrow> distinct (paths (snd (scan_music_library env music_dir fs db)))"
  by (rule scan_music_library_walk [of env music_dir fs db])
     (erule scan_walk_distinct)

lemma add_playlist_tracks_frame:
  "add_playlist_tracks pid trs db = r \<Longrightarrow>
   (case r of Inl (e, d) \<Rightarrow> tracks d = tracks db \<and> playlists d = playlists db
            | Inr d \<Rightarrow> tracks d = tracks db \<and> playlists d = playlists db)"
  by (induction trs arbitrary: db) (auto split: if_splits sum.splits)

lemma add_playlist_tracks_all:
  "\<forall>t \<in> set trs. sqlite_int (t_id t) \<Longrightarrow>
   add_playlist_tracks pid trs db =
     Inr (db\<lparr>playlist_tracks := playlist_tracks db @ map (\<lambda>t. (pid, t_id t)) trs\<rparr>)"
  by (induction trs arbitrary: db) simp_all

lemma create_playlist_tracks:
  "tracks (db_exec (CreatePlaylist pick name trs) db) = tracks db"
proof (cases "valid_utf8 name \<and> name \<notin> set (map pl_name (playlists db))")
  case False
  then show ?thesis
    by (auto simp: create_playlist_def split: option.splits)
next
  case True
  show ?thesis
  proof (cases "next_rowid pick (map pl_id (playlists db))")
    case None
    then show ?thesis using True by (simp add: create_playlist_def)
  next
    case (Some i)
    let ?d = "db\<lparr>playlists := playlists db @ [\<lparr>pl_id = i, pl_name = name\<rparr>]\<rparr>"
    have c: "create_playlist pick name trs db = add_playlist_tracks i trs ?d"
      using True Some by (simp add: create_playlist_def)
    from add_playlist_tracks_frame [of i trs ?d "add_playlist_tracks i trs ?d"]
    show ?thesis
      unfolding db_exec.simps c by (auto split: sum.splits)
  qed
qed

lemma db_exec_distinct: "distinct (paths db) \<Longrightarrow> distinct (paths (db_exec c db))"
proof (cases c)
  case (Scan env music_dir fs)
  assume "distinct (paths db)"
  then show ?thesis using Scan by (simp add: scan_distinct)
next
  case (CreatePlaylist pick name trs)
  assume "distinct (paths db)"
  then show ?thesis
    unfolding CreatePlaylist paths_def create_playlist_tracks .
qed

lemma db_run_distinct: "distinct (paths db) \<Longrightarrow> distinct (paths (db_run cs db))"
  by (induction cs arbitrary: db) (simp_all add: db_exec_distinct)

lemma rescan_nothing:
  assumes "scan_music_library env music_dir fs db = (Inr n, db')"
  shows "scan_music_library env' music_dir fs db' = (Inr 0, db')"
proof -
  have "\<forall>p \<in> set (audio_paths (os_walk music_dir fs)). valid_utf8 p \<and> p \<in> set (paths db')"
    using scan_walk_complete [OF scan_returns [OF assms]] by simp
  then have "scan_walk env' (os_walk music_dir fs) (db', 0) = (None, db', 0)"
    by (rule scan_walk_present)
  then show ?thesis by (simp add: scan_music_library_def)
qed

lemma distinct_at_most_one:
  "distinct (map f xs) \<Longrightarrow> length (filter (\<lambda>x. f x = y) xs) \<le> 1"
proof (induction xs)
  case Nil
  then show ?case by simp
next
  case (Cons x xs)
  show ?case
  proof (cases "f x = y")
    case True
    then have "y \<notin> f ` set xs"
      using Cons.prems by simp
    then have "filter (\<lambda>x. f x = y) xs = []"
      by (auto simp: filter_empty_conv)
    then show ?thesis using True by simp
  next
    case False
    then show ?thesis using Cons by simp
  qed
qed

text \<open>
  What a scan guarantees. A catalog built from the empty database by any sequence of scans
  and playlist creations never holds two track rows with the same path. When a scan has
  returned, a second scan of the same directory tree inserts nothing and returns 0.
\<close>

lemma scan_idempotent_when_returned:
  "distinct (paths (db_run cs empty_database)) \<and>
   length (filter (\<lambda>r. r_path r = p) (tracks (db_run cs empty_database))) \<le> 1 \<and>
   (scan_music_library env music_dir fs db = (Inr n, db') \<longrightarrow>
      scan_music_library env' music_dir fs db' = (Inr 0, db'))"
proof -
  have "distinct (paths empty_database)"
    by (simp add: paths_def empty_database_def)
  then have d: "distinct (paths (db_run cs empty_database))"
    by (rule db_run_distinct)
  then have "length (filter (\<lambda>r. r_path r = p) (tracks (db_run cs empty_database))) \<le> 1"
    unfolding paths_def by (rule distinct_at_most_one)
  then show ?thesis
    using d rescan_nothing by blast
qed

text \<open>
  C2: where the code departs from the claim. In the directory, a.mp3 has an artist and an
  album tag, and b.FLAC has a \<open>length\<close> tag. Line 89 takes the tag's value, a list, as
  the duration (lines 87 and 88 take the first element of theirs), and the \<open>INSERT\<close> of
  line 96 cannot bind a list. The scan of the empty catalog inserts a.mp3 and raises at
  b.FLAC. The second scan of the unchanged directory skips a.mp3 and raises at b.FLAC
  again: it inserts nothing, but it returns no count.
\<close>

theorem rescan_raises_on_length_tag:
  "scan_music_library length_tag_env ''/music'' scenario_tree empty_database
     = (Inl BindingError, first_row_catalog) \<and>
   scan_music_library length_tag_env ''/music'' scenario_tree first_row_catalog
     = (Inl BindingError, first_row_catalog)"
  by (simp add: length_tag_scan length_tag_rescan)

subsection \<open>Files whose metadata cannot be read\<close>

lemma bad_name_unreadable:
  "extraction_fails (mutagen_File sample_env (path_join ''/music'' bad_name))"
  by (simp add: sample_env_def sample_mutagen_def bad_name_def path_join_def endswith_def)

lemma bad_name_walk: "os_walk ''/music'' bad_name_tree = [(''/music'', [], [bad_name])]"
  by (simp add: bad_name_tree_def)

lemma scan_file_unreadable:
  assumes "supported f" and "valid_utf8 (path_join root f)"
    and "path_join root f \<notin> set (paths db)"
    and "extraction_fails (mutagen_File env (path_join root f))"
    and "next_rowid (random_rowid env) (map r_id (tracks db)) = Some i"
  shows "scan_file env root f (db, k) =
     (None, db\<lparr>tracks := tracks db @ [default_row i (path_join root f) f]\<rparr>, k + 1)"
proof -
  have "valid_utf8 f"
    using assms(2) by (rule valid_path_join)
  then show ?thesis
    using scan_file_new [OF assms(1-3) extract_fails [OF assms(4)], of k] assms(2,3,5)
    by (simp add: insert_track_def sqlite_int_def valid_defaults default_row_def paths_def)
qed

lemma scan_file_unreadable_error:
  assumes "extraction_fails (mutagen_File env (path_join root f))"
    and "fst (scan_file env root f (db, k)) = Some e"
  shows "(e = UnicodeEncodeError \<and> \<not> valid_utf8 (path_join root f)) \<or>
         (e = OperationalError \<and>
            next_rowid (random_rowid env) (map r_id (tracks db)) = None)"
proof -
  have "scan_file env root f (db, k) = (Some e, snd (scan_file env root f (db, k)))"
    using assms(2) by (simp add: prod_eq_iff)
  from scan_file_abort [OF this] assms(1) show ?thesis by auto
qed

lemma scan_file_error_kinds:
  assumes "fst (scan_file env root f (db, k)) = Some e"
  shows "e = UnicodeEncodeError \<or> e = BindingError \<or> e = OperationalError"
proof -
  have "scan_file env root f (db, k) = (Some e, snd (scan_file env root f (db, k)))"
    using assms by (simp add: prod_eq_iff)
  from scan_file_abort [OF this] show ?thesis by auto
qed

lemma scan_inserted_defaults:
  assumes "scan_music_library env music_dir fs db = (Inr n, db')"
    and "p \<in> set (audio_paths (os_walk music_dir fs))"
    and "p \<notin> set (paths db)" and "extraction_fails (mutagen_File env p)"
  shows "\<exists>r \<in> set (tracks db'). r_path r = p \<and> r_artist r = ''Unknown Artist'' \<and>
           r_album r = ''Unknown Album'' \<and> r_duration r = 0"
proof -
  note walk = scan_returns [OF assms(1)]
  have "p \<in> set (paths db')"
    using scan_walk_complete [OF walk assms(2)] by simp
  then obtain r where r: "r \<in> set (tracks db')" "r_path r = p"
    by (auto simp: paths_def)
  from scan_walk_defaults [OF walk r(1)] assms(3,4) r show ?thesis
    by auto
qed

text \<open>
  What a scan guarantees for a file whose metadata cannot be read. The \<open>try\<close> block
  yields the default triple for a file that mutagen cannot open or recognise, or whose
  \<open>artist\<close> or \<open>album\<close> tag has no value. When a scan reaches such a file, with a
  supported ending, a path that is valid UTF-8 and not yet catalogued, and a rowid to
  give, it inserts the row with exactly these defaults and adds one to the count. A scan
  that returns has inserted as many rows as it reports, among them a row with the
  defaults for every such file. On such a file a scan step raises only when the path is
  not valid UTF-8 or no rowid is left; and whatever the file, an exception that leaves a
  scan step is one raised by \<open>execute\<close>, not by the extraction.
\<close>

lemma scan_defaults_when_bindable:
  "(extraction_fails m \<longrightarrow>
      extract_metadata m = (''Unknown Artist'', ''Unknown Album'', PyInt 0)) \<and>
   (supported f \<and> valid_utf8 (path_join root f) \<and> path_join root f \<notin> set (paths db) \<and>
    extraction_fails (mutagen_File env (path_join root f)) \<and>
    next_rowid (random_rowid env) (map r_id (tracks db)) = Some i \<longrightarrow>
      scan_file env root f (db, k) =
        (None,
         db\<lparr>tracks := tracks db @
           [\<lparr>r_id = i, r_path = path_join root f, r_filename = f,
             r_artist = ''Unknown Artist'', r_album = ''Unknown Album'',
             r_duration = 0\<rparr>]\<rparr>,
         k + 1)) \<and>
   (scan_music_library env music_dir fs db = (Inr n, db') \<longrightarrow>
      length (tracks db') = length (tracks db) + n \<and>
      (\<forall>p \<in> set (audio_paths (os_walk music_dir fs)).
         p \<notin> set (paths db) \<and> extraction_fails (mutagen_File env p) \<longrightarrow>
         (\<exists>r \<in> set (tracks db'). r_path r = p \<and> r_artist r = ''Unknown Artist'' \<and>
            r_album r = ''Unknown Album'' \<and> r_duration r = 0))) \<and>
   (extraction_fails (mutagen_File env (path_join root f)) \<and>
    fst (scan_file env root f (db, k)) = Some e \<longrightarrow>
      (e = UnicodeEncodeError \<and> \<not> valid_utf8 (path_join root f)) \<or>
      (e = OperationalError \<and>
         next_rowid (random_rowid env) (map r_id (tracks db)) = None)) \<and>
   (fst (scan_file env root f (db, k)) = Some e \<longrightarrow>
      e = UnicodeEncodeError \<or> e = BindingError \<or> e = OperationalError)"
proof -
  have a: "extract_metadata m = (''Unknown Artist'', ''Unknown Album'', PyInt 0)"
    if "extraction_fails m"
    using that by (rule extract_fails)
  have b: "scan_file env root f (db, k) =
        (None,
         db\<lparr>tracks := tracks db @
           [\<lparr>r_id = i, r_path = path_join root f, r_filename = f,
             r_artist = ''Unknown Artist'', r_album = ''Unknown Album'',
             r_duration = 0\<rparr>]\<rparr>,
         k + 1)"
    if "supported f" "valid_utf8 (path_join root f)" "path_join root f \<notin> set (paths db)"
      "extraction_fails (mutagen_File env (path_join root f))"
      "next_rowid (random_rowid env) (map r_id (tracks db)) = Some i"
    using scan_file_unreadable [of f root db env i k] that by (simp add: default_row_def)
  have c: "length (tracks db') = length (tracks db) + n"
    if "scan_music_library env music_dir fs db = (Inr n, db')"
    using scan_walk_count [OF scan_returns [OF that]] by simp
  have d: "\<exists>r \<in> set (tracks db'). r_path r = p \<and> r_artist r = ''Unknown Artist'' \<and>
            r_album r = ''Unknown Album'' \<and> r_duration r = 0"
    if "scan_music_library env music_dir fs db = (Inr n, db')"
      "p \<in> set (audio_paths (os_walk music_dir fs))"
      "p \<notin> set (paths db)" "extraction_fails (mutagen_File env p)" for p
    using that by (rule scan_inserted_defaults)
  have e: "(e = UnicodeEncodeError \<and> \<not> valid_utf8 (path_join root f)) \<or>
      (e = OperationalError \<and>
         next_rowid (random_rowid env) (map r_id (tracks db)) = None)"
    if "extraction_fails (mutagen_File env (path_join root f))"
      "fst (scan_file env root f (db, k)) = Some e"
    using that by (rule scan_file_unreadable_error)
  have g: "e = UnicodeEncodeError \<or> e = BindingError \<or> e = OperationalError"
    if "fst (scan_file env root f (db, k)) = Some e"
    using that by (rule scan_file_error_kinds)
  show ?thesis
    using a b c d e g by blast
qed

lemma scan_defaults_on_sample:
  "extraction_fails MutagenNone \<and>
   extract_metadata MutagenNone = (''Unknown Artist'', ''Unknown Album'', PyInt 0) \<and>
   supported ''d.mp3'' \<and>
   valid_utf8 (path_join ''/music'' ''d.mp3'') \<and>
   path_join ''/music'' ''d.mp3'' \<notin> set (paths empty_database) \<and>
   extraction_fails (mutagen_File sample_env (path_join ''/music'' ''d.mp3'')) \<and>
   next_rowid (random_rowid sample_env) (map r_id (tracks empty_database)) = Some 1 \<and>
   scan_file sample_env ''/music'' ''d.mp3'' (empty_database, 0) =
     (None,
      \<lparr>tracks = [\<lparr>r_id = 1, r_path = ''/music/d.mp3'', r_filename = ''d.mp3'',
          r_artist = ''Unknown Artist'', r_album = ''Unknown Album'', r_duration = 0\<rparr>],
       playlists = [], playlist_tracks = []\<rparr>,
      1) \<and>
   scan_music_library sample_env ''/music'' scenario_tree empty_database
     = (Inr 4, sample_catalog) \<and>
   length (tracks sample_catalog) = length (tracks empty_database) + 4 \<and>
   ''/music/d.mp3'' \<in> set (audio_paths (os_walk ''/music'' scenario_tree)) \<and>
   extraction_fails (mutagen_File sample_env ''/music/d.mp3'') \<and>
   \<lparr>r_id = 4, r_path = ''/music/d.mp3'', r_filename = ''d.mp3'',
     r_artist = ''Unknown Artist'', r_album = ''Unknown Album'', r_duration = 0\<rparr>
     \<in> set (tracks sample_catalog) \<and>
   extraction_fails (mutagen_File sample_env (path_join ''/music'' bad_name)) \<and>
   fst (scan_file sample_env ''/music'' bad_name (empty_database, 0))
     = Some UnicodeEncodeError \<and>
   \<not> valid_utf8 (path_join ''/music'' bad_name)"
proof -
  have h1: "extraction_fails MutagenNone" by simp
  have h2: "supported ''d.mp3'' \<and>
      valid_utf8 (path_join ''/music'' ''d.mp3'') \<and>
      path_join ''/music'' ''d.mp3'' \<notin> set (paths empty_database) \<and>
      extraction_fails (mutagen_File sample_env (path_join ''/music'' ''d.mp3'')) \<and>
      next_rowid (random_rowid sample_env) (map r_id (tracks empty_database)) = Some 1"
    by (simp add: supported_samples joins valid_samples paths_def empty_database_def
          sample_env_def sample_mutagen_def next_rowid_def)
  have h3: "''/music/d.mp3'' \<in> set (audio_paths (os_walk ''/music'' scenario_tree))"
    "''/music/d.mp3'' \<notin> set (paths empty_database)"
    "extraction_fails (mutagen_File sample_env ''/music/d.mp3'')"
    by (simp_all add: scenario_tree_def supported_samples joins paths_def empty_database_def
          sample_env_def sample_mutagen_def)
  have h4: "extraction_fails (mutagen_File sample_env (path_join ''/music'' bad_name))"
    "fst (scan_file sample_env ''/music'' bad_name (empty_database, 0))
       = Some UnicodeEncodeError"
    by (simp_all add: bad_name_unreadable
          scan_file_bad_path [OF supported_samples(6) bad_name_invalid])
  have row: "\<lparr>r_id = 4, r_path = ''/music/d.mp3'', r_filename = ''d.mp3'',
     r_artist = ''Unknown Artist'', r_album = ''Unknown Album'', r_duration = 0\<rparr>
     \<in> set (tracks sample_catalog)"
    by (simp add: sample_catalog_def)
  note t1 = scan_defaults_when_bindable
    [of MutagenNone "''d.mp3''" "''/music''" empty_database sample_env 1 0
      "''/music''" scenario_tree 4 sample_catalog UnicodeEncodeError]
  note t2 = scan_defaults_when_bindable
    [of MutagenNone bad_name "''/music''" empty_database sample_env 1 0
      "''/music''" scenario_tree 4 sample_catalog UnicodeEncodeError]
  have c1: "extract_metadata MutagenNone = (''Unknown Artist'', ''Unknown Album'', PyInt 0)"
    using t1 h1 by blast
  have c2: "scan_file sample_env ''/music'' ''d.mp3'' (empty_database, 0) =
     (None,
      \<lparr>tracks = [\<lparr>r_id = 1, r_path = ''/music/d.mp3'', r_filename = ''d.mp3'',
          r_artist = ''Unknown Artist'', r_album = ''Unknown Album'', r_duration = 0\<rparr>],
       playlists = [], playlist_tracks = []\<rparr>,
      1)"
    using t1 h2 by (simp add: joins empty_database_def)
  have c3: "length (tracks sample_catalog) = length (tracks empty_database) + 4"
    using t1 sample_scan by blast
  have c4: "\<not> valid_utf8 (path_join ''/music'' bad_name)"
    using t2 h4 by blast
  have c5: "\<exists>r \<in> set (tracks sample_catalog). r_path r = ''/music/d.mp3'' \<and>
      r_artist r = ''Unknown Artist'' \<and> r_album r = ''Unknown Album'' \<and> r_duration r = 0"
    using t1 sample_scan h3 by blast
  show ?thesis
    using h1 h2 h3 h4 c1 c2 c3 c4 row sample_scan by blast
qed

text \<open>
  C8: where the code departs from the claim. The directory holds one file, with a
  supported ending, whose name is not valid UTF-8 and which mutagen cannot read. The
  \<open>SELECT\<close> of line 80, which is outside the \<open>try\<close> block, cannot bind its path and
  raises: the scan ends there, the file is neither inserted nor counted, and the
  catalog stays empty.
\<close>

theorem bad_name_file_not_inserted:
  "supported bad_name \<and>
   extraction_fails (mutagen_File sample_env (path_join ''/music'' bad_name)) \<and>
   os_walk ''/music'' bad_name_tree = [(''/music'', [], [bad_name])] \<and>
   scan_music_library sample_env ''/music'' bad_name_tree empty_database
     = (Inl UnicodeEncodeError, empty_database) \<and>
   tracks empty_database = []"
proof -
  have "tracks empty_database = []"
    by (simp add: empty_database_def)
  then show ?thesis
    using supported_samples(6) bad_name_unreadable bad_name_walk bad_name_scan by blast
qed

subsection \<open>Unreadable files and directories\<close>






subsection \<open>Playlists\<close>

lemma create_playlist_duplicate_name:
  "valid_utf8 name \<Longrightarrow> next_rowid pick (map pl_id (playlists db)) \<noteq> None \<Longrightarrow>
   name \<in> set (map pl_name (playlists db)) \<Longrightarrow>
   create_playlist pick name trs db = Inl (IntegrityError, db)"
  by (auto simp: create_playlist_def)

lemma create_playlist_new_name:
  "valid_utf8 name \<Longrightarrow> next_rowid pick (map pl_id (playlists db)) = Some i \<Longrightarrow>
   name \<notin> set (map pl_name (playlists db)) \<Longrightarrow> \<forall>t \<in> set trs. sqlite_int (t_id t) \<Longrightarrow>
   create_playlist pick name trs db =
     Inr (db\<lparr>playlists := playlists db @ [\<lparr>pl_id = i, pl_name = name\<rparr>],
            playlist_tracks := playlist_tracks db @ map (\<lambda>t. (i, t_id t)) trs\<rparr>)"
  by (simp add: create_playlist_def add_playlist_tracks_all)

lemma create_playlist_unchanged_or_added:
  "playlists (db_exec (CreatePlaylist pick name trs) db) = playlists db \<or>
   (name \<notin> set (map pl_name (playlists db)) \<and>
    (\<exists>i. playlists (db_exec (CreatePlaylist pick name trs) db) =
       playlists db @ [\<lparr>pl_id = i, pl_name = name\<rparr>]))"
proof (cases "valid_utf8 name \<and> name \<notin> set (map pl_name (playlists db))")
  case False
  then show ?thesis
    by (auto simp: create_playlist_def split: option.splits)
next
  case True
  show ?thesis
  proof (cases "next_rowid pick (map pl_id (playlists db))")
    case None
    then show ?thesis using True by (simp add: create_playlist_def)
  next
    case (Some i)
    let ?d = "db\<lparr>playlists := playlists db @ [\<lparr>pl_id = i, pl_name = name\<rparr>]\<rparr>"
    have c: "create_playlist pick name trs db = add_playlist_tracks i trs ?d"
      using True Some by (simp add: create_playlist_def)
    from add_playlist_tracks_frame [of i trs ?d "add_playlist_tracks i trs ?d"]
    have "playlists (db_exec (CreatePlaylist pick name trs) db) = playlists ?d"
      unfolding db_exec.simps c by (auto split: sum.splits)
    then show ?thesis using True by simp
  qed
qed

lemma scan_keeps_playlists:
  "playlists (snd (scan_music_library env music_dir fs db)) = playlists db"
proof (rule scan_music_library_walk [of env music_dir fs db])
  fix e k
  let ?db' = "snd (scan_music_library env music_dir fs db)"
  assume w: "scan_walk env (os_walk music_dir fs) (db, 0) = (e, ?db', k)"
  have "playlists (fst (?db', k)) = playlists db"
  proof (rule scan_walk_invariant
      [where P = "\<lambda>s. playlists (fst s) = playlists db", OF w])
    show "playlists (fst (db, 0::nat)) = playlists db" by simp
  next
    fix root f s e' s'
    assume "playlists (fst s) = playlists db" "scan_file env root f s = (e', s')"
    then show "playlists (fst s') = playlists db"
      by (cases s, cases s') (auto elim!: scan_file_cases)
  qed
  then show ?thesis by simp
qed

lemma db_exec_names_distinct:
  assumes "distinct (map pl_name (playlists db))"
  shows "distinct (map pl_name (playlists (db_exec c db)))"
proof (cases c)
  case (Scan env music_dir fs)
  then show ?thesis using assms by (simp add: scan_keeps_playlists)
next
  case (CreatePlaylist pick name trs)
  from create_playlist_unchanged_or_added [of pick name trs db]
  show ?thesis
    unfolding CreatePlaylist using assms by auto
qed

lemma db_run_names_distinct:
  "distinct (map pl_name (playlists db)) \<Longrightarrow>
   distinct (map pl_name (playlists (db_run cs db)))"
  by (induction cs arbitrary: db) (simp_all add: db_exec_names_distinct)

text \<open>
  What \<open>create_playlist\<close> guarantees for a name and track ids that SQLite can bind: a
  second playlist of the same name is refused with the tables unchanged, so that a name
  occurs once; a new name gets one playlist row and one association row per given track.
\<close>

lemma create_playlist_names_unique:
  "distinct (map pl_name (playlists (db_run cs empty_database))) \<and>
   (valid_utf8 name \<and> next_rowid pick (map pl_id (playlists db)) \<noteq> None \<and>
    name \<in> set (map pl_name (playlists db)) \<longrightarrow>
      create_playlist pick name trs db = Inl (IntegrityError, db)) \<and>
   (valid_utf8 name \<and> next_rowid pick (map pl_id (playlists db)) = Some i \<and>
    name \<notin> set (map pl_name (playlists db)) \<and> (\<forall>t \<in> set trs. sqlite_int (t_id t)) \<longrightarrow>
      (\<exists>db'. create_playlist pick name trs db = Inr db' \<and>
         map pl_name (playlists db') = map pl_name (playlists db) @ [name] \<and>
         map snd (playlist_tracks db') = map snd (playlist_tracks db) @ map t_id trs \<and>
         (next_rowid pick' (map pl_id (playlists db')) \<noteq> None \<longrightarrow>
            create_playlist pick' name trs' db' = Inl (IntegrityError, db'))))"
proof -
  have "distinct (map pl_name (playlists empty_database))"
    by (simp add: empty_database_def)
  then have a: "distinct (map pl_name (playlists (db_run cs empty_database)))"
    by (rule db_run_names_distinct)
  have b: "\<exists>db'. create_playlist pick name trs db = Inr db' \<and>
         map pl_name (playlists db') = map pl_name (playlists db) @ [name] \<and>
         map snd (playlist_tracks db') = map snd (playlist_tracks db) @ map t_id trs \<and>
         (next_rowid pick' (map pl_id (playlists db')) \<noteq> None \<longrightarrow>
            create_playlist pick' name trs' db' = Inl (IntegrityError, db'))"
    if v: "valid_utf8 name" and i: "next_rowid pick (map pl_id (playlists db)) = Some i"
      and n: "name \<notin> set (map pl_name (playlists db))"
      and t: "\<forall>t \<in> set trs. sqlite_int (t_id t)"
  proof -
    let ?d = "db\<lparr>playlists := playlists db @ [\<lparr>pl_id = i, pl_name = name\<rparr>],
            playlist_tracks := playlist_tracks db @ map (\<lambda>t. (i, t_id t)) trs\<rparr>"
    have c: "create_playlist pick name trs db = Inr ?d"
      using v i n t by (rule create_playlist_new_name)
    have "create_playlist pick' name trs' ?d = Inl (IntegrityError, ?d)"
      if "next_rowid pick' (map pl_id (playlists ?d)) \<noteq> None"
      using v that by (intro create_playlist_duplicate_name) simp_all
    then show ?thesis
      using c by (simp add: comp_def)
  qed
  show ?thesis
    using a b create_playlist_duplicate_name by blast
qed

text \<open>
  C4: where the code departs from the claim. The catalog holds the tracks 1 to 4. A
  playlist created from track 1 and a track tuple with the id 99 is created without any
  error: the association row (1, 99) is stored although no track has the id 99.
\<close>

theorem create_playlist_accepts_unknown_track:
  "t_id ghost_track \<notin> set (map r_id (tracks sample_catalog)) \<and>
   create_playlist pick ''Favorites'' [track_a, ghost_track] sample_catalog =
     Inr (sample_catalog\<lparr>playlists := [\<lparr>pl_id = 1, pl_name = ''Favorites''\<rparr>],
                         playlist_tracks := [(1, 1), (1, 99)]\<rparr>)"
  by (simp add: create_playlist_def sample_catalog_def ghost_track_def track_a_def
        next_rowid_def valid_samples sqlite_int_def)

end
